theory Spec2Isabelle
  imports Main
begin

unbundle bit_operations_syntax

section \<open>The parsed line\<close>

text \<open>
  The shell (\<^verbatim>\<open>mshell.c\<close>) consumes the structures built by the parser of
  \<^verbatim>\<open>siparse.h\<close>: circular singly linked lists of arguments, redirections,
  commands and pipelines. The lists of arguments, redirections and commands
  are only ever traversed by the shell, once around from their head pointer;
  they are represented by the list of their nodes in traversal order, a
  \<^verbatim>\<open>NULL\<close> list pointer being the empty list and a \<^verbatim>\<open>NULL\<close> element pointer
  being \<open>None\<close>. The list of pipelines is relinked in place by
  \<^verbatim>\<open>removeEmptyPipelines\<close> and is therefore kept in an explicit store.
\<close>

text \<open>
  Modelled from the spec: the redirection kinds behind the macros
  \<^verbatim>\<open>IS_RIN\<close>, \<^verbatim>\<open>IS_ROUT\<close> and \<^verbatim>\<open>IS_RAPPEND\<close> of \<^verbatim>\<open>siparse.h\<close>, which is not
  part of the sources at hand (direction: input, output-truncate,
  output-append). \<open>RNONE\<close> stands for a flag word that none of the three
  macros accepts.
\<close>

datatype redir_flags = RIN | ROUT | RAPPEND | RNONE

record redir =
  filename :: string
  r_flags :: redir_flags

record command =
  args :: "string list"
  redirs :: "redir list"

text \<open>
  Modelled from the spec: the flag word of a pipeline, compared by the shell
  with the constant \<^verbatim>\<open>INBACKGROUND\<close> of \<^verbatim>\<open>siparse.h\<close> (a background flag:
  foreground or background).
\<close>

datatype pipeline_flags = INFOREGROUND | INBACKGROUND

record pipeline =
  commands :: "command option list"
  pl_flags :: pipeline_flags

type_synonym ptr = nat

definition NULL :: ptr where
  "NULL = 0"

record pipelineseq =
  pipeline_of :: "pipeline option"
  nxt :: ptr

type_synonym heap = "ptr \<Rightarrow> pipelineseq option"

text \<open>Reading through a pointer; \<open>None\<close> is the invalid access.\<close>

definition deref :: "heap \<Rightarrow> ptr \<Rightarrow> pipelineseq option" where
  "deref h p = (if p = NULL then None else h p)"

section \<open>Validation of a line\<close>

fun isEmptyPipeline :: "pipeline option \<Rightarrow> bool" where
  "isEmptyPipeline None = True"
| "isEmptyPipeline (Some p) =
     (case commands p of
        [] \<Rightarrow> True
      | [None] \<Rightarrow> True
      | _ \<Rightarrow> False)"

text \<open>
  The counting loop of \<^verbatim>\<open>removeEmptyPipelines\<close>: a \<^verbatim>\<open>do ... while\<close> that
  follows \<^verbatim>\<open>next\<close> until it is back at the head. It does not return when it
  reads through an invalid pointer or never comes back to the head; both are
  the value \<open>None\<close>.
\<close>

partial_function (option) count_pipelines ::
    "heap \<Rightarrow> ptr \<Rightarrow> ptr \<Rightarrow> nat \<Rightarrow> (nat \<times> ptr) option" where
  "count_pipelines h start cur n =
     (case deref h cur of
        None \<Rightarrow> None
      | Some node \<Rightarrow>
          if nxt node \<noteq> start then count_pipelines h start (nxt node) (Suc n)
          else Some (Suc n, nxt node))"

text \<open>
  The search for the first non-empty pipeline; the first argument is the
  number of iterations left (\<^verbatim>\<open>num_pipelines - i\<close>). The result is the
  value of \<^verbatim>\<open>curr\<close> after the loop.
\<close>

fun find_nonempty :: "nat \<Rightarrow> heap \<Rightarrow> ptr \<Rightarrow> ptr option" where
  "find_nonempty 0 h cur = Some cur"
| "find_nonempty (Suc k) h cur =
     (case deref h cur of
        None \<Rightarrow> None
      | Some node \<Rightarrow>
          if \<not> isEmptyPipeline (pipeline_of node) then Some cur
          else find_nonempty k h (nxt node))"

text \<open>
  The removal loop; the first argument is the loop counter \<^verbatim>\<open>i\<close>, which
  runs from the original number of pipelines down to 1, the last one is
  \<^verbatim>\<open>num_pipelines\<close>. The counter is decremented at most once per iteration and
  starts at the number of iterations, so it never falls below zero.
\<close>

fun remove_loop :: "nat \<Rightarrow> heap \<Rightarrow> ptr \<Rightarrow> ptr \<Rightarrow> nat \<Rightarrow> (heap \<times> nat) option" where
  "remove_loop 0 h prev cur num = Some (h, num)"
| "remove_loop (Suc i) h prev cur num =
     (case deref h cur of
        None \<Rightarrow> None
      | Some cn \<Rightarrow>
          (case deref h prev of
             None \<Rightarrow> None
           | Some pn \<Rightarrow>
               if isEmptyPipeline (pipeline_of cn)
               then remove_loop i (h(prev \<mapsto> pn\<lparr>nxt := nxt cn\<rparr>)) prev (nxt cn) (num - 1)
               else remove_loop i h (nxt pn) (nxt cn) num))"

text \<open>The inner loop of the validity check: is some command pointer \<^verbatim>\<open>NULL\<close>?\<close>

fun has_null_command :: "command option list \<Rightarrow> bool" where
  "has_null_command [] = False"
| "has_null_command (c # cs) = (if c = None then True else has_null_command cs)"

text \<open>
  The validity check; the first argument is the number of iterations left.
  The source never advances \<^verbatim>\<open>curr\<close> inside this loop, so every iteration
  inspects the pipeline at the head of the list. \<open>Some True\<close> is a pass,
  \<open>Some False\<close> the early \<^verbatim>\<open>return -1\<close>.
\<close>

fun check_validity :: "nat \<Rightarrow> heap \<Rightarrow> ptr \<Rightarrow> bool option" where
  "check_validity 0 h cur = Some True"
| "check_validity (Suc k) h cur =
     (case deref h cur of
        None \<Rightarrow> None
      | Some node \<Rightarrow>
          (case pipeline_of node of
             None \<Rightarrow> None
           | Some p \<Rightarrow>
               (case commands p of
                  [] \<Rightarrow> None
                | c # cs \<Rightarrow>
                    if has_null_command (c # cs) then Some False
                    else check_validity k h cur)))"

text \<open>
  \<^verbatim>\<open>removeEmptyPipelines\<close>: the result is the returned count, the store and
  the new value of \<^verbatim>\<open>*pipelines\<close>.
\<close>

definition removeEmptyPipelines :: "heap \<Rightarrow> ptr \<Rightarrow> (int \<times> heap \<times> ptr) option" where
  "removeEmptyPipelines h pipelines =
     (if pipelines = NULL then Some (- 1, h, pipelines)
      else
        case count_pipelines h pipelines pipelines 0 of
          None \<Rightarrow> None
        | Some (num_pipelines, cur0) \<Rightarrow>
            (case find_nonempty num_pipelines h cur0 of
               None \<Rightarrow> None
             | Some cur \<Rightarrow>
                 (case deref h cur of
                    None \<Rightarrow> None
                  | Some node \<Rightarrow>
                      if isEmptyPipeline (pipeline_of node) then Some (0, h, NULL)
                      else
                        (case remove_loop num_pipelines h cur (nxt node) num_pipelines of
                           None \<Rightarrow> None
                         | Some (h', num) \<Rightarrow>
                             (case check_validity num h' cur of
                                None \<Rightarrow> None
                              | Some False \<Rightarrow> Some (- 1, h', NULL)
                              | Some True \<Rightarrow> Some (int num, h', cur))))))"


section \<open>Processes and the kernel\<close>

text \<open>
  The shell acts on the world through system calls only. A process is the
  part of the kernel's and of the program's state that the shell reads or
  writes: the descriptor table, the signal state, the globals of
  \<^verbatim>\<open>mshell.c\<close>, and a log of the calls the process has made, in order.
\<close>

type_synonym fd = int

definition STDIN_FILENO :: fd where
  "STDIN_FILENO = 0"

definition STDOUT_FILENO :: fd where
  "STDOUT_FILENO = 1"

definition EXIT_SUCCESS :: int where
  "EXIT_SUCCESS = 0"

definition EXIT_FAILURE :: int where
  "EXIT_FAILURE = 1"

datatype errno = ENOENT | EACCES | EIO | EMFILE | EISDIR | ENOEXEC | ENOMEM

datatype oflag = O_RDONLY | O_WRONLY | O_CREAT | O_TRUNC | O_APPEND

type_synonym mode_t = nat

definition S_IRUSR :: mode_t where
  "S_IRUSR = 256"

definition S_IWUSR :: mode_t where
  "S_IWUSR = 128"

definition S_IRGRP :: mode_t where
  "S_IRGRP = 32"

definition S_IROTH :: mode_t where
  "S_IROTH = 4"

text \<open>
  What a descriptor refers to: something the shell was started with, an end
  of the \<open>k\<close>-th pipe made by this shell, or a file opened by name with the
  given flags and creation mode.
\<close>

datatype descr =
    Inherited nat
  | PipeRead nat
  | PipeWrite nat
  | OpenFile string "oflag set" mode_t

datatype signal = SIGINT | SIGCHLD

datatype sighandler = SIG_DFL | SIG_IGN | sigchldHandler

datatype sa_flag = SA_NOCLDSTOP | SA_RESTART

record sigaction =
  sa_handler :: sighandler
  sa_flags :: "sa_flag set"
  sa_mask :: "signal set"

text \<open>
  The calls a process makes, with their results. \<open>Fork\<close> carries, in the
  parent, what is known of the child (nothing when the call failed).
\<close>

datatype 'c event =
    Dup fd int
  | Pipe int "fd \<times> fd"
  | Close fd int
  | Dup2 fd fd int
  | Open string "oflag set" mode_t int "errno option"
  | Fork int "'c option"
  | Setsid
  | Sigaction signal sigaction
  | Execvp string "string list" "errno option"
  | Stderr string
  | Perror string
  | Stdout string
  | Fflush
  | BlockChildSignal
  | UnblockChildSignal
  | RegisterForegroundChild int
  | WaitForForegroundChildren "int list"
  | CallBuiltin string "string list" int
  | PrintBackgroundChildrenInfo
  | GetLine

record 'c proc =
  fds :: "fd \<Rightarrow> descr option"
  sigint_disp :: sigaction
  sigchld_disp :: sigaction
  sigchld_blocked :: bool
  own_session :: bool
  default_sigint_action :: sigaction
  default_sigchld_action :: sigaction
  foreground :: "int list"
  pipes_made :: nat
  forks_made :: nat
  lines_read :: nat
  log :: "'c event list"

text \<open>
  How a call ends: it returns to its caller, the process exits with a
  status, the process image is replaced by a program, the process is killed
  by an invalid memory access (or is caught in an endless traversal of a
  malformed list), or the process waits forever.
\<close>

datatype ('a, 's) outcome =
    Returned 'a 's
  | Exited int 's
  | Execed string "string list" 's
  | Faulted 's
  | Blocked 's

fun and_then :: "('a, 's) outcome \<Rightarrow> ('a \<Rightarrow> 's \<Rightarrow> ('b, 's) outcome) \<Rightarrow> ('b, 's) outcome" where
  "and_then (Returned x s) f = f x s"
| "and_then (Exited n s) f = Exited n s"
| "and_then (Execed p av s) f = Execed p av s"
| "and_then (Faulted s) f = Faulted s"
| "and_then (Blocked s) f = Blocked s"

text \<open>
  The child as the parent's log knows it: the arguments of \<^verbatim>\<open>runCommand\<close>
  that the child holds a copy of, the process at its birth, and how its run
  of \<^verbatim>\<open>runCommand\<close> ends.
\<close>

record child =
  child_com :: "command option"
  child_read_fd :: fd
  child_pipe_fds :: "(fd \<times> fd) option"
  child_background :: bool
  child_image :: "unit proc"
  child_outcome :: "(unit, unit proc) outcome"

type_synonym shell = "child proc"

text \<open>
  Everything the shell takes from outside \<^verbatim>\<open>mshell.c\<close>. The constants of
  \<^verbatim>\<open>config.h\<close> and \<^verbatim>\<open>builtins.h\<close>, the builtin table, the parser and the line
  reader are not part of the sources at hand and are parameters; so are the
  answers of the kernel that the shell cannot determine: which opens and
  execs fail, what the \<open>k\<close>-th \<^verbatim>\<open>fork\<close> returns in the parent, which children
  terminate, how many descriptors a process may hold.
\<close>

record reader_result =
  rd_errno :: "errno option"
  rd_line :: "string option"

record env =
  EXEC_FAILURE :: int
  SYNTAX_ERROR_STR :: string
  PROMPT_STR :: string
  BUILTIN_ERROR :: int
  getBuiltin :: "string \<Rightarrow> (string list \<Rightarrow> int) option"
  parseline :: "string \<Rightarrow> heap \<times> ptr"
  getLine :: "nat \<Rightarrow> reader_result"
  isatty_stdin :: bool
  OPEN_MAX :: nat
  open_errno :: "string \<Rightarrow> oflag set \<Rightarrow> errno option"
  exec_errno :: "string \<Rightarrow> errno option"
  fork_pid :: "nat \<Rightarrow> int"
  child_exits :: "int \<Rightarrow> bool"

definition logged :: "'c event \<Rightarrow> 'c proc \<Rightarrow> 'c proc" where
  "logged ev s = s\<lparr>log := log s @ [ev]\<rparr>"

subsection \<open>System calls\<close>

text \<open>The lowest descriptor that is not open, if the table has room.\<close>

definition free_fd :: "env \<Rightarrow> (fd \<Rightarrow> descr option) \<Rightarrow> fd option" where
  "free_fd e tbl = List.find (\<lambda>i. tbl i = None) (map int [0..<OPEN_MAX e])"

definition sys_close :: "fd \<Rightarrow> 'c proc \<Rightarrow> int \<times> 'c proc" where
  "sys_close d s =
     (case fds s d of
        None \<Rightarrow> (- 1, logged (Close d (- 1)) s)
      | Some x \<Rightarrow> (0, logged (Close d 0) (s\<lparr>fds := (fds s)(d := None)\<rparr>)))"

definition sys_dup2 :: "env \<Rightarrow> fd \<Rightarrow> fd \<Rightarrow> 'c proc \<Rightarrow> int \<times> 'c proc" where
  "sys_dup2 e from to s =
     (case fds s from of
        None \<Rightarrow> (- 1, logged (Dup2 from to (- 1)) s)
      | Some x \<Rightarrow>
          if to < 0 \<or> int (OPEN_MAX e) \<le> to then (- 1, logged (Dup2 from to (- 1)) s)
          else (to, logged (Dup2 from to to) (s\<lparr>fds := (fds s)(to \<mapsto> x)\<rparr>)))"

definition sys_dup :: "env \<Rightarrow> fd \<Rightarrow> 'c proc \<Rightarrow> int \<times> 'c proc" where
  "sys_dup e d s =
     (case fds s d of
        None \<Rightarrow> (- 1, logged (Dup d (- 1)) s)
      | Some x \<Rightarrow>
          (case free_fd e (fds s) of
             None \<Rightarrow> (- 1, logged (Dup d (- 1)) s)
           | Some n \<Rightarrow> (n, logged (Dup d n) (s\<lparr>fds := (fds s)(n \<mapsto> x)\<rparr>))))"

definition sys_pipe :: "env \<Rightarrow> 'c proc \<Rightarrow> int \<times> (fd \<times> fd) \<times> 'c proc" where
  "sys_pipe e s =
     (case free_fd e (fds s) of
        None \<Rightarrow> (- 1, (- 1, - 1), logged (Pipe (- 1) (- 1, - 1)) s)
      | Some r \<Rightarrow>
          (case free_fd e ((fds s)(r \<mapsto> PipeRead (pipes_made s))) of
             None \<Rightarrow> (- 1, (- 1, - 1), logged (Pipe (- 1) (- 1, - 1)) s)
           | Some w \<Rightarrow>
               (0, (r, w),
                logged (Pipe 0 (r, w))
                  (s\<lparr>fds := (fds s)(r \<mapsto> PipeRead (pipes_made s), w \<mapsto> PipeWrite (pipes_made s)),
                     pipes_made := Suc (pipes_made s)\<rparr>))))"

definition sys_open ::
    "env \<Rightarrow> string \<Rightarrow> oflag set \<Rightarrow> mode_t \<Rightarrow> 'c proc \<Rightarrow> int \<times> errno option \<times> 'c proc" where
  "sys_open e name oflags mode s =
     (case open_errno e name oflags of
        Some err \<Rightarrow> (- 1, Some err, logged (Open name oflags mode (- 1) (Some err)) s)
      | None \<Rightarrow>
          (case free_fd e (fds s) of
             None \<Rightarrow> (- 1, Some EMFILE, logged (Open name oflags mode (- 1) (Some EMFILE)) s)
           | Some n \<Rightarrow>
               (n, None,
                logged (Open name oflags mode n None)
                  (s\<lparr>fds := (fds s)(n \<mapsto> OpenFile name oflags mode)\<rparr>))))"

definition sys_setsid :: "'c proc \<Rightarrow> 'c proc" where
  "sys_setsid s = logged Setsid (s\<lparr>own_session := True\<rparr>)"

text \<open>\<^verbatim>\<open>sigaction(sig, act, oldact)\<close>: the result is the old action and the process.\<close>

definition sys_sigaction :: "signal \<Rightarrow> sigaction \<Rightarrow> 'c proc \<Rightarrow> sigaction \<times> 'c proc" where
  "sys_sigaction sig act s =
     (case sig of
        SIGINT \<Rightarrow> (sigint_disp s, logged (Sigaction sig act) (s\<lparr>sigint_disp := act\<rparr>))
      | SIGCHLD \<Rightarrow> (sigchld_disp s, logged (Sigaction sig act) (s\<lparr>sigchld_disp := act\<rparr>)))"

definition fprintf_stderr :: "string \<Rightarrow> 'c proc \<Rightarrow> 'c proc" where
  "fprintf_stderr msg s = logged (Stderr msg) s"

definition perror :: "string \<Rightarrow> 'c proc \<Rightarrow> 'c proc" where
  "perror msg s = logged (Perror msg) s"

subsection \<open>The child manager\<close>

text \<open>
  Modelled from the spec: \<^verbatim>\<open>blockChildSignal\<close> and \<^verbatim>\<open>unblockChildSignal\<close> of
  \<^verbatim>\<open>childmanager.c\<close>, which is not part of the sources at hand (block and
  unblock delivery of the termination notification).
\<close>

definition blockChildSignal :: "'c proc \<Rightarrow> 'c proc" where
  "blockChildSignal s = logged BlockChildSignal (s\<lparr>sigchld_blocked := True\<rparr>)"

definition unblockChildSignal :: "'c proc \<Rightarrow> 'c proc" where
  "unblockChildSignal s = logged UnblockChildSignal (s\<lparr>sigchld_blocked := False\<rparr>)"

text \<open>
  Modelled from the spec: \<^verbatim>\<open>registerForegroundChild\<close> of \<^verbatim>\<open>childmanager.c\<close> (add
  the pid to the current pipeline's foreground-wait set).
\<close>

definition registerForegroundChild :: "int \<Rightarrow> 'c proc \<Rightarrow> 'c proc" where
  "registerForegroundChild pid s =
     logged (RegisterForegroundChild pid) (s\<lparr>foreground := foreground s @ [pid]\<rparr>)"

text \<open>
  Modelled from the spec: \<^verbatim>\<open>waitForForegroundChildren\<close> of \<^verbatim>\<open>childmanager.c\<close>
  (block and reap until the foreground-wait set is empty). The call returns
  once every registered child has terminated, and never when one of them
  does not terminate.
\<close>

definition waitForForegroundChildren :: "env \<Rightarrow> 'c proc \<Rightarrow> (unit, 'c proc) outcome" where
  "waitForForegroundChildren e s =
     (let s1 = logged (WaitForForegroundChildren (foreground s)) s in
      if list_all (child_exits e) (foreground s) then Returned () (s1\<lparr>foreground := []\<rparr>)
      else Blocked s1)"

text \<open>
  Modelled from the spec: \<^verbatim>\<open>printBackgroundChildrenInfo\<close> of \<^verbatim>\<open>childmanager.c\<close>
  (report the pending background completions); only the call is recorded.
\<close>

definition printBackgroundChildrenInfo :: "'c proc \<Rightarrow> 'c proc" where
  "printBackgroundChildrenInfo s = logged PrintBackgroundChildrenInfo s"


section \<open>The shell\<close>

text \<open>
  \<^verbatim>\<open>getArgVector\<close>: the arguments of a command, once around the list; \<open>None\<close>
  is the read through a \<^verbatim>\<open>NULL\<close> argument list.
\<close>

definition getArgVector :: "command \<Rightarrow> string list option" where
  "getArgVector com = (case args com of [] \<Rightarrow> None | a # as \<Rightarrow> Some (a # as))"

definition closeFileDescriptor :: "fd \<Rightarrow> 'c proc \<Rightarrow> (unit, 'c proc) outcome" where
  "closeFileDescriptor d s =
     (let (r, s1) = sys_close d s in
      if r = - 1 then Exited EXIT_FAILURE (perror ''close() failed'' s1)
      else Returned () s1)"

definition moveFileDescriptor :: "env \<Rightarrow> fd \<Rightarrow> fd \<Rightarrow> 'c proc \<Rightarrow> (unit, 'c proc) outcome" where
  "moveFileDescriptor e from to s =
     (if from = to then Returned () s
      else
        let (r, s1) = sys_dup2 e from to s in
        if r = - 1 then Exited EXIT_FAILURE (perror ''dup2() failed'' s1)
        else closeFileDescriptor from s1)"

definition openFile ::
    "env \<Rightarrow> string \<Rightarrow> oflag set \<Rightarrow> mode_t \<Rightarrow> 'c proc \<Rightarrow> (fd, 'c proc) outcome" where
  "openFile e name options_flag mode s =
     (let (d, err, s1) = sys_open e name options_flag mode s in
      if d \<noteq> - 1 then Returned d s1
      else
        Exited EXIT_FAILURE
          (case err of
             Some ENOENT \<Rightarrow> fprintf_stderr (name @ '': no such file or directory\<newline>'') s1
           | Some EACCES \<Rightarrow> fprintf_stderr (name @ '': permission denied\<newline>'') s1
           | _ \<Rightarrow> perror ''open() failed'' s1))"

text \<open>
  Modelled from the spec: the macros \<^verbatim>\<open>IS_RIN\<close>, \<^verbatim>\<open>IS_ROUT\<close> and \<^verbatim>\<open>IS_RAPPEND\<close>
  of \<^verbatim>\<open>siparse.h\<close> (the direction of a redirection is input, output-truncate
  or output-append).
\<close>

definition IS_RIN :: "redir_flags \<Rightarrow> bool" where
  "IS_RIN f = (f = RIN)"

definition IS_ROUT :: "redir_flags \<Rightarrow> bool" where
  "IS_ROUT f = (f = ROUT)"

definition IS_RAPPEND :: "redir_flags \<Rightarrow> bool" where
  "IS_RAPPEND f = (f = RAPPEND)"

definition addRedirs :: "env \<Rightarrow> redir \<Rightarrow> 'c proc \<Rightarrow> (unit, 'c proc) outcome" where
  "addRedirs e r s =
     (let mode = S_IRUSR OR S_IWUSR OR S_IRGRP OR S_IROTH in
      if IS_RIN (r_flags r) then
        and_then (openFile e (filename r) {O_RDONLY} 0 s)
          (\<lambda>d. moveFileDescriptor e d STDIN_FILENO)
      else if IS_ROUT (r_flags r) then
        and_then (openFile e (filename r) {O_WRONLY, O_CREAT, O_TRUNC} mode s)
          (\<lambda>d. moveFileDescriptor e d STDOUT_FILENO)
      else if IS_RAPPEND (r_flags r) then
        and_then (openFile e (filename r) {O_WRONLY, O_CREAT, O_APPEND} mode s)
          (\<lambda>d. moveFileDescriptor e d STDOUT_FILENO)
      else Returned () s)"

text \<open>The loop of \<^verbatim>\<open>runCommand\<close> over the redirections of the command.\<close>

fun add_all_redirs :: "env \<Rightarrow> redir list \<Rightarrow> 'c proc \<Rightarrow> (unit, 'c proc) outcome" where
  "add_all_redirs e [] s = Returned () s"
| "add_all_redirs e (r # rs) s = and_then (addRedirs e r s) (\<lambda>_. add_all_redirs e rs)"

text \<open>The end of \<^verbatim>\<open>runCommand\<close>: \<^verbatim>\<open>execvp\<close> and what follows when it returns.\<close>

definition exec_command :: "env \<Rightarrow> command \<Rightarrow> 'c proc \<Rightarrow> (unit, 'c proc) outcome" where
  "exec_command e com s =
     (case getArgVector com of
        None \<Rightarrow> Faulted s
      | Some argv \<Rightarrow>
          let command_name = hd argv in
          (case exec_errno e command_name of
             None \<Rightarrow> Execed command_name argv (logged (Execvp command_name argv None) s)
           | Some err \<Rightarrow>
               let s1 = logged (Execvp command_name argv (Some err)) s in
               Exited (EXEC_FAILURE e)
                 (case err of
                    ENOENT \<Rightarrow> fprintf_stderr (command_name @ '': no such file or directory\<newline>'') s1
                  | EACCES \<Rightarrow> fprintf_stderr (command_name @ '': permission denied\<newline>'') s1
                  | _ \<Rightarrow> fprintf_stderr (command_name @ '': exec error\<newline>'') s1)))"

text \<open>
  \<^verbatim>\<open>runCommand\<close> from the return of \<^verbatim>\<open>fork\<close> on; \<open>pid\<close> is the value that
  \<^verbatim>\<open>fork\<close> returned in the process at hand, so that \<open>pid = 0\<close> is the child.
\<close>

definition after_fork ::
    "env \<Rightarrow> int \<Rightarrow> command option \<Rightarrow> fd \<Rightarrow> (fd \<times> fd) option \<Rightarrow> bool \<Rightarrow> 'c proc \<Rightarrow>
     (unit, 'c proc) outcome" where
  "after_fork e pid com read_fd pipe_fds is_background s =
     (if pid = - 1 then Exited EXIT_FAILURE (perror ''fork() failed\<newline>'' s)
      else if pid \<noteq> 0 then
        Returned () (if \<not> is_background then registerForegroundChild pid s else s)
      else
        let s1 = (if is_background then sys_setsid s else s);
            s2 = unblockChildSignal s1;
            s3 = snd (sys_sigaction SIGINT (default_sigint_action s2) s2);
            s4 = snd (sys_sigaction SIGCHLD (default_sigchld_action s3) s3)
        in
        and_then (moveFileDescriptor e read_fd STDIN_FILENO s4) (\<lambda>_ s5.
        and_then
          (case pipe_fds of
             None \<Rightarrow> Returned () s5
           | Some (p0, p1) \<Rightarrow>
               and_then (moveFileDescriptor e p1 STDOUT_FILENO s5)
                 (\<lambda>_. closeFileDescriptor p0)) (\<lambda>_ s6.
        (case com of
           None \<Rightarrow> Faulted s6
         | Some c \<Rightarrow> and_then (add_all_redirs e (redirs c) s6) (\<lambda>_. exec_command e c)))))"

text \<open>The process that \<^verbatim>\<open>fork\<close> creates: a copy of the parent that has made no call yet.\<close>

definition child_of :: "'c proc \<Rightarrow> unit proc" where
  "child_of s =
     \<lparr>fds = fds s, sigint_disp = sigint_disp s, sigchld_disp = sigchld_disp s,
      sigchld_blocked = sigchld_blocked s, own_session = False,
      default_sigint_action = default_sigint_action s,
      default_sigchld_action = default_sigchld_action s,
      foreground = foreground s, pipes_made = pipes_made s, forks_made = forks_made s,
      lines_read = lines_read s, log = []\<rparr>"

text \<open>
  The child that a \<^verbatim>\<open>fork\<close> inside \<^verbatim>\<open>runCommand\<close> creates when the parent is in
  state \<open>s\<close>: it runs the rest of \<^verbatim>\<open>runCommand\<close> with the return value 0.
\<close>

definition fork_child ::
    "env \<Rightarrow> command option \<Rightarrow> fd \<Rightarrow> (fd \<times> fd) option \<Rightarrow> bool \<Rightarrow> 'c proc \<Rightarrow> child" where
  "fork_child e com read_fd pipe_fds is_background s =
     \<lparr>child_com = com, child_read_fd = read_fd, child_pipe_fds = pipe_fds,
      child_background = is_background, child_image = child_of s,
      child_outcome = after_fork e 0 com read_fd pipe_fds is_background (child_of s)\<rparr>"

definition runCommand ::
    "env \<Rightarrow> command option \<Rightarrow> fd \<Rightarrow> (fd \<times> fd) option \<Rightarrow> bool \<Rightarrow> shell \<Rightarrow> (unit, shell) outcome" where
  "runCommand e com read_fd pipe_fds is_background s =
     (let s1 = logged Fflush s;
          pid = fork_pid e (forks_made s1);
          born =
            (if pid = - 1 then None
             else Some (fork_child e com read_fd pipe_fds is_background s1));
          s2 = logged (Fork pid born) (s1\<lparr>forks_made := Suc (forks_made s1)\<rparr>)
      in after_fork e pid com read_fd pipe_fds is_background s2)"

text \<open>
  The chain of \<^verbatim>\<open>runPipeline\<close>: the loop over all commands but the last, and
  the launch of the last one. \<open>c\<close> is the command at hand, \<open>cs\<close> the ones
  after it.
\<close>

fun launch_stages ::
    "env \<Rightarrow> command option \<Rightarrow> command option list \<Rightarrow> fd \<Rightarrow> bool \<Rightarrow> shell \<Rightarrow>
     (unit, shell) outcome" where
  "launch_stages e c [] read_fd is_background s =
     and_then (runCommand e c read_fd None is_background s) (\<lambda>_. closeFileDescriptor read_fd)"
| "launch_stages e c (c' # cs) read_fd is_background s =
     (let (r, pipe_fds, s1) = sys_pipe e s in
      if r = - 1 then Exited EXIT_FAILURE (perror ''pipe() failed'' s1)
      else
        and_then (runCommand e c read_fd (Some pipe_fds) is_background s1) (\<lambda>_ s2.
        and_then (closeFileDescriptor read_fd s2) (\<lambda>_ s3.
        and_then (closeFileDescriptor (snd pipe_fds) s3) (\<lambda>_.
        launch_stages e c' cs (fst pipe_fds) is_background))))"

text \<open>\<^verbatim>\<open>runPipeline\<close> from the call of \<^verbatim>\<open>dup\<close> on.\<close>

definition general_path ::
    "env \<Rightarrow> command option \<Rightarrow> command option list \<Rightarrow> bool \<Rightarrow> shell \<Rightarrow> (unit, shell) outcome" where
  "general_path e c cs is_background s =
     (let (read_fd, s1) = sys_dup e STDIN_FILENO s in
      if read_fd = - 1 then Exited EXIT_FAILURE (perror ''dup() failed'' s1)
      else
        and_then (launch_stages e c cs read_fd is_background (blockChildSignal s1)) (\<lambda>_ s2.
        and_then
          (if \<not> is_background then waitForForegroundChildren e s2 else Returned () s2)
          (\<lambda>_ s3. Returned () (unblockChildSignal s3))))"

definition runPipeline :: "env \<Rightarrow> pipeline \<Rightarrow> shell \<Rightarrow> (unit, shell) outcome" where
  "runPipeline e pl s =
     (case commands pl of
        [] \<Rightarrow> Faulted s
      | c # cs \<Rightarrow>
          let num_commands = length (c # cs);
              is_background = (pl_flags pl = INBACKGROUND)
          in
          if num_commands = 1 then
            (case c of
               None \<Rightarrow> Faulted s
             | Some com \<Rightarrow>
                 if redirs com = [] \<and> \<not> is_background then
                   (case getArgVector com of
                      None \<Rightarrow> Faulted s
                    | Some argv \<Rightarrow>
                        let command_name = hd argv in
                        (case getBuiltin e command_name of
                           Some builtin \<Rightarrow>
                             let r = builtin argv;
                                 s1 = logged (CallBuiltin command_name argv r) s
                             in
                             Returned ()
                               (if r = BUILTIN_ERROR e
                                then fprintf_stderr (''Builtin '' @ command_name @ '' error.\<newline>'') s1
                                else s1)
                         | None \<Rightarrow> general_path e c cs is_background s))
                 else general_path e c cs is_background s)
          else general_path e c cs is_background s)"

text \<open>The loop of \<^verbatim>\<open>handleLine\<close> over the validated pipelines.\<close>

fun run_pipelines :: "env \<Rightarrow> nat \<Rightarrow> heap \<Rightarrow> ptr \<Rightarrow> shell \<Rightarrow> (unit, shell) outcome" where
  "run_pipelines e 0 h p s = Returned () s"
| "run_pipelines e (Suc k) h p s =
     (case deref h p of
        None \<Rightarrow> Faulted s
      | Some node \<Rightarrow>
          (case pipeline_of node of
             None \<Rightarrow> Faulted s
           | Some pl \<Rightarrow> and_then (runPipeline e pl s) (\<lambda>_. run_pipelines e k h (nxt node))))"

definition handleLine :: "env \<Rightarrow> shell \<Rightarrow> (unit, shell) outcome" where
  "handleLine e s =
     (let r = getLine e (lines_read s);
          s1 = logged GetLine (s\<lparr>lines_read := Suc (lines_read s)\<rparr>)
      in
      if rd_errno r = Some EIO then
        Returned () (fprintf_stderr (SYNTAX_ERROR_STR e @ ''\<newline>'') s1)
      else
        (case rd_line r of
           None \<Rightarrow> Exited EXIT_SUCCESS s1
         | Some line \<Rightarrow>
             let (h, pipelines) = parseline e line in
             (case removeEmptyPipelines h pipelines of
                None \<Rightarrow> Faulted s1
              | Some (count, h', pipelines') \<Rightarrow>
                  if count = - 1 then
                    Returned () (fprintf_stderr (SYNTAX_ERROR_STR e @ ''\<newline>'') s1)
                  else run_pipelines e (nat count) h' pipelines' s1)))"

text \<open>The signal set-up at the start of \<^verbatim>\<open>main\<close>.\<close>

definition install_handlers :: "shell \<Rightarrow> shell" where
  "install_handlers s =
     (let (old_int, s1) =
            sys_sigaction SIGINT \<lparr>sa_handler = SIG_IGN, sa_flags = {}, sa_mask = {}\<rparr> s;
          s2 = s1\<lparr>default_sigint_action := old_int\<rparr>;
          (old_chld, s3) =
            sys_sigaction SIGCHLD
              \<lparr>sa_handler = sigchldHandler, sa_flags = {SA_NOCLDSTOP, SA_RESTART}, sa_mask = {}\<rparr> s2
      in s3\<lparr>default_sigchld_action := old_chld\<rparr>)"

text \<open>
  The read-execute loop of \<^verbatim>\<open>main\<close>. It has no exit of its own: it ends when
  a call inside it ends the process, and otherwise runs forever, which is
  the value \<open>None\<close>.
\<close>

partial_function (option) main_loop :: "env \<Rightarrow> shell \<Rightarrow> (unit, shell) outcome option" where
  "main_loop e s =
     (let s1 =
        (if isatty_stdin e
         then logged Fflush (logged (Stdout (PROMPT_STR e)) (printBackgroundChildrenInfo s))
         else s)
      in
      case handleLine e s1 of
        Returned u s2 \<Rightarrow> main_loop e s2
      | Exited n s2 \<Rightarrow> Some (Exited n s2)
      | Execed p av s2 \<Rightarrow> Some (Execed p av s2)
      | Faulted s2 \<Rightarrow> Some (Faulted s2)
      | Blocked s2 \<Rightarrow> Some (Blocked s2))"

definition main :: "env \<Rightarrow> shell \<Rightarrow> (unit, shell) outcome option" where
  "main e s = main_loop e (install_handlers s)"


section \<open>Notions used in the statements\<close>

subsection \<open>Circular lists in the store\<close>

text \<open>
  \<open>path h p as q\<close>: following \<^verbatim>\<open>next\<close> from \<open>p\<close> visits exactly the nodes
  \<open>as\<close>, in this order, and arrives at \<open>q\<close>. A ring is what the parser
  builds: a path from the head back to the head through distinct nodes.
\<close>

fun path :: "heap \<Rightarrow> ptr \<Rightarrow> ptr list \<Rightarrow> ptr \<Rightarrow> bool" where
  "path h p [] q = (p = q)"
| "path h p (a # as) q =
     (p = a \<and> (case deref h a of None \<Rightarrow> False | Some node \<Rightarrow> path h (nxt node) as q))"

definition ring :: "heap \<Rightarrow> ptr list \<Rightarrow> bool" where
  "ring h ns = (ns \<noteq> [] \<and> distinct ns \<and> path h (hd ns) ns (hd ns))"

definition pipelines_at :: "heap \<Rightarrow> ptr list \<Rightarrow> pipeline option list" where
  "pipelines_at h ns = map (\<lambda>a. case h a of None \<Rightarrow> None | Some node \<Rightarrow> pipeline_of node) ns"

definition empty_at :: "heap \<Rightarrow> ptr \<Rightarrow> bool" where
  "empty_at h a = (case h a of None \<Rightarrow> True | Some node \<Rightarrow> isEmptyPipeline (pipeline_of node))"

definition same_contents :: "heap \<Rightarrow> heap \<Rightarrow> bool" where
  "same_contents h h' = (\<forall>a. map_option pipeline_of (h' a) = map_option pipeline_of (h a))"

text \<open>The pipeline in node \<open>a\<close> has a \<^verbatim>\<open>NULL\<close> command.\<close>

definition head_invalid :: "heap \<Rightarrow> ptr \<Rightarrow> bool" where
  "head_invalid h a =
     (case h a of
        None \<Rightarrow> False
      | Some node \<Rightarrow>
          (case pipeline_of node of None \<Rightarrow> False | Some p \<Rightarrow> has_null_command (commands p)))"

subsection \<open>Runs and logs\<close>

definition state_of :: "('a, 's) outcome \<Rightarrow> 's" where
  "state_of out =
     (case out of
        Returned x s \<Rightarrow> s
      | Exited n s \<Rightarrow> s
      | Execed p av s \<Rightarrow> s
      | Faulted s \<Rightarrow> s
      | Blocked s \<Rightarrow> s)"

text \<open>The calls made during a run that started in state \<open>s\<close>.\<close>

definition new_events :: "'c proc \<Rightarrow> ('a, 'c proc) outcome \<Rightarrow> 'c event list" where
  "new_events s out = drop (length (log s)) (log (state_of out))"

text \<open>Running a list of pipelines one after the other, each to its return.\<close>

fun run_seq :: "env \<Rightarrow> pipeline list \<Rightarrow> shell \<Rightarrow> (unit, shell) outcome" where
  "run_seq e [] s = Returned () s"
| "run_seq e (pl # pls) s = and_then (runPipeline e pl s) (\<lambda>_. run_seq e pls)"

subsection \<open>Kinds of calls\<close>

fun is_builtin_call :: "'c event \<Rightarrow> bool" where
  "is_builtin_call (CallBuiltin name argv r) = True"
| "is_builtin_call ev = False"

fun is_fork :: "'c event \<Rightarrow> bool" where
  "is_fork (Fork pid born) = True"
| "is_fork ev = False"

fun is_wait :: "'c event \<Rightarrow> bool" where
  "is_wait (WaitForForegroundChildren pids) = True"
| "is_wait ev = False"

fun is_dup :: "'c event \<Rightarrow> bool" where
  "is_dup (Dup d r) = True"
| "is_dup ev = False"

fun is_pipe :: "'c event \<Rightarrow> bool" where
  "is_pipe (Pipe r p) = True"
| "is_pipe ev = False"

fun is_block :: "'c event \<Rightarrow> bool" where
  "is_block BlockChildSignal = True"
| "is_block ev = False"

fun is_unblock :: "'c event \<Rightarrow> bool" where
  "is_unblock UnblockChildSignal = True"
| "is_unblock ev = False"

text \<open>The children that the log records, with their pids, in the order of their birth.\<close>

fun forks :: "'c event list \<Rightarrow> (int \<times> 'c) list" where
  "forks [] = []"
| "forks (Fork pid (Some ch) # evs) = (pid, ch) # forks evs"
| "forks (ev # evs) = forks evs"

text \<open>The programs that children of the log have come to execute.\<close>

definition programs_run :: "child event list \<Rightarrow> (string \<times> string list) list" where
  "programs_run evs =
     List.map_filter
       (\<lambda>(pid, ch). case child_outcome ch of Execed p av s \<Rightarrow> Some (p, av) | _ \<Rightarrow> None)
       (forks evs)"

subsection \<open>The chain of a pipeline, in the words of the specification\<close>

text \<open>
  The calls of the shell for one stage that reads from \<open>rd\<close>: the pipe (when
  the stage is not the last one), the launch, the registration of a
  foreground child, and the closing of what was handed to the child.
\<close>

definition stage_events :: "bool \<Rightarrow> fd \<Rightarrow> int \<Rightarrow> child \<Rightarrow> child event list" where
  "stage_events bg rd pid ch =
     (case child_pipe_fds ch of None \<Rightarrow> [] | Some p \<Rightarrow> [Pipe 0 p]) @
     [Fflush, Fork pid (Some ch)] @
     (if bg then [] else [RegisterForegroundChild pid]) @
     [Close rd 0] @
     (case child_pipe_fds ch of None \<Rightarrow> [] | Some p \<Rightarrow> [Close (snd p) 0])"

text \<open>The calls for all stages: each stage reads from the pipe of the stage before it.\<close>

fun chain_events :: "bool \<Rightarrow> fd \<Rightarrow> (int \<times> child) list \<Rightarrow> child event list" where
  "chain_events bg rd [] = []"
| "chain_events bg rd ((pid, ch) # rest) =
     stage_events bg rd pid ch @
     chain_events bg (case child_pipe_fds ch of None \<Rightarrow> rd | Some p \<Rightarrow> fst p) rest"

text \<open>
  The wiring of the children of a chain. \<open>B\<close> is the descriptor table of the
  shell without the chain's descriptors, \<open>rd\<close> the descriptor the stage at
  hand reads from and \<open>d\<close> what it refers to, \<open>k\<close> the number of the next
  pipe. Every stage but the last is born with the shell's descriptors, its
  input and the two ends of its own pipe, and nothing else; the last stage
  with the shell's descriptors and its input.
\<close>

fun wired ::
    "(fd \<Rightarrow> descr option) \<Rightarrow> fd \<Rightarrow> descr \<Rightarrow> nat \<Rightarrow> command option list \<Rightarrow> child list \<Rightarrow> bool" where
  "wired B rd d k [c] [ch] =
     (child_com ch = c \<and> child_read_fd ch = rd \<and> child_pipe_fds ch = None \<and>
      fds (child_image ch) = B(rd \<mapsto> d))"
| "wired B rd d k (c # c' # cs) (ch # ch' # chs) =
     (case child_pipe_fds ch of
        None \<Rightarrow> False
      | Some (r, w) \<Rightarrow>
          child_com ch = c \<and> child_read_fd ch = rd \<and>
          fds (child_image ch) = B(rd \<mapsto> d, r \<mapsto> PipeRead k, w \<mapsto> PipeWrite k) \<and>
          B r = None \<and> B w = None \<and> r \<noteq> rd \<and> w \<noteq> rd \<and> r \<noteq> w \<and>
          wired B r (PipeRead k) (Suc k) (c' # cs) (ch' # chs))"
| "wired B rd d k cs chs = False"

text \<open>
  A child of the shell in state \<open>s\<close>: it starts with the signal state and
  the globals of the shell and an empty log, and its outcome is that of running
  the rest of \<^verbatim>\<open>runCommand\<close> on its arguments.
\<close>

definition born_of :: "env \<Rightarrow> bool \<Rightarrow> shell \<Rightarrow> child \<Rightarrow> bool" where
  "born_of e bg s ch =
     (child_background ch = bg \<and>
      sigint_disp (child_image ch) = sigint_disp s \<and>
      sigchld_disp (child_image ch) = sigchld_disp s \<and>
      sigchld_blocked (child_image ch) = sigchld_blocked s \<and>
      default_sigint_action (child_image ch) = default_sigint_action s \<and>
      default_sigchld_action (child_image ch) = default_sigchld_action s \<and>
      \<not> own_session (child_image ch) \<and>
      log (child_image ch) = [] \<and>
      child_outcome ch =
        after_fork e 0 (child_com ch) (child_read_fd ch) (child_pipe_fds ch) bg (child_image ch))"

subsection \<open>Failures in a child\<close>

text \<open>The calls of the descriptor work of a child and of its \<^verbatim>\<open>execvp\<close>.\<close>

fun fd_event :: "'c event \<Rightarrow> bool" where
  "fd_event (Close d r) = True"
| "fd_event (Dup2 a b r) = True"
| "fd_event (Open name oflags mode r err) = True"
| "fd_event (Execvp p av err) = True"
| "fd_event (Stderr msg) = True"
| "fd_event (Perror msg) = True"
| "fd_event ev = False"

fun failed :: "'c event \<Rightarrow> bool" where
  "failed (Close d r) = (r = - 1)"
| "failed (Dup2 a b r) = (r = - 1)"
| "failed (Open name oflags mode r err) = (r = - 1)"
| "failed (Execvp p av err) = (err \<noteq> None)"
| "failed ev = False"

fun is_diag :: "'c event \<Rightarrow> bool" where
  "is_diag (Stderr msg) = True"
| "is_diag (Perror msg) = True"
| "is_diag ev = False"

text \<open>A call of the descriptor work that succeeded.\<close>

definition quiet :: "'c event \<Rightarrow> bool" where
  "quiet ev = (fd_event ev \<and> \<not> failed ev \<and> \<not> is_diag ev)"

text \<open>
  \<open>reports e call msg n\<close>: the call failed, and \<open>msg\<close> and \<open>n\<close> are the
  diagnostic and the exit status that the source gives to this failure.
\<close>

fun reports :: "env \<Rightarrow> 'c event \<Rightarrow> 'c event \<Rightarrow> int \<Rightarrow> bool" where
  "reports e (Close d r) msg n =
     (r = - 1 \<and> msg = Perror ''close() failed'' \<and> n = EXIT_FAILURE)"
| "reports e (Dup2 a b r) msg n =
     (r = - 1 \<and> msg = Perror ''dup2() failed'' \<and> n = EXIT_FAILURE)"
| "reports e (Open name oflags mode r err) msg n =
     (r = - 1 \<and> n = EXIT_FAILURE \<and>
      msg =
        (case err of
           Some ENOENT \<Rightarrow> Stderr (name @ '': no such file or directory\<newline>'')
         | Some EACCES \<Rightarrow> Stderr (name @ '': permission denied\<newline>'')
         | _ \<Rightarrow> Perror ''open() failed''))"
| "reports e (Execvp p av err) msg n =
     (n = EXEC_FAILURE e \<and>
      (case err of
         None \<Rightarrow> False
       | Some ENOENT \<Rightarrow> msg = Stderr (p @ '': no such file or directory\<newline>'')
       | Some EACCES \<Rightarrow> msg = Stderr (p @ '': permission denied\<newline>'')
       | Some x \<Rightarrow> msg = Stderr (p @ '': exec error\<newline>'')))"
| "reports e ev msg n = False"

text \<open>Everything of a process but its descriptor table and its log.\<close>

definition same_but_fds :: "'c proc \<Rightarrow> 'c proc \<Rightarrow> bool" where
  "same_but_fds s s' =
     (sigint_disp s' = sigint_disp s \<and> sigchld_disp s' = sigchld_disp s \<and>
      sigchld_blocked s' = sigchld_blocked s \<and> own_session s' = own_session s \<and>
      default_sigint_action s' = default_sigint_action s \<and>
      default_sigchld_action s' = default_sigchld_action s \<and>
      foreground s' = foreground s \<and> pipes_made s' = pipes_made s \<and>
      forks_made s' = forks_made s \<and> lines_read s' = lines_read s)"

text \<open>
  \<open>fd_run e s out\<close>: the run from \<open>s\<close> to \<open>out\<close> is descriptor work only.
  Either no call failed and no diagnostic was printed, or the run ended in
  an exit right after the first failed call and its one diagnostic.
\<close>

definition fd_run :: "env \<Rightarrow> 'c proc \<Rightarrow> ('a, 'c proc) outcome \<Rightarrow> bool" where
  "fd_run e s out =
     (same_but_fds s (state_of out) \<and>
      (case out of
         Exited n s' \<Rightarrow>
           (\<exists>evs call msg. log s' = log s @ evs @ [call, msg] \<and> list_all quiet evs \<and>
              reports e call msg n)
       | Blocked s' \<Rightarrow> False
       | _ \<Rightarrow> (\<exists>evs. log (state_of out) = log s @ evs \<and> list_all quiet evs)))"

text \<open>The child after the signal set-up at the start of its part of \<^verbatim>\<open>runCommand\<close>.\<close>

definition child_setup :: "bool \<Rightarrow> 'c proc \<Rightarrow> 'c proc" where
  "child_setup bg s =
     s\<lparr>own_session := (bg \<or> own_session s), sigchld_blocked := False,
       sigint_disp := default_sigint_action s, sigchld_disp := default_sigchld_action s,
       log := log s @ (if bg then [Setsid] else []) @
         [UnblockChildSignal, Sigaction SIGINT (default_sigint_action s),
          Sigaction SIGCHLD (default_sigchld_action s)]\<rparr>"

subsection \<open>Redirections, in the words of the specification\<close>





fun exit_status :: "('a, 's) outcome \<Rightarrow> int option" where
  "exit_status (Exited n s) = Some n"
| "exit_status out = None"


section \<open>Example inputs\<close>

definition cmd :: "string list \<Rightarrow> command option" where
  "cmd av = Some \<lparr>args = av, redirs = []\<rparr>"

definition ex_node :: "command option list \<Rightarrow> ptr \<Rightarrow> pipelineseq" where
  "ex_node cs n = \<lparr>pipeline_of = Some \<lparr>commands = cs, pl_flags = INFOREGROUND\<rparr>, nxt = n\<rparr>"

text \<open>The line \<^verbatim>\<open>true ; ; false\<close> as the parser hands it over.\<close>

definition line_true_false :: heap where
  "line_true_false =
     [1 \<mapsto> ex_node [cmd [''true'']] 2, 2 \<mapsto> ex_node [None] 3, 3 \<mapsto> ex_node [cmd [''false'']] 1]"

text \<open>The line \<^verbatim>\<open>ls ; cmd1 | | cmd2\<close>.\<close>

definition line_bad_second :: heap where
  "line_bad_second =
     [1 \<mapsto> ex_node [cmd [''ls'']] 2,
      2 \<mapsto> ex_node [cmd [''cmd1''], None, cmd [''cmd2'']] 1]"

definition ex_parseline :: "string \<Rightarrow> heap \<times> ptr" where
  "ex_parseline line =
     (if line = ''true ; ; false'' then (line_true_false, 1)
      else if line = ''ls ; cmd1 | | cmd2'' then (line_bad_second, 1)
      else (Map.empty, NULL))"

definition ex_getLine :: "nat \<Rightarrow> reader_result" where
  "ex_getLine k =
     (if k = 0 then \<lparr>rd_errno = None, rd_line = Some ''true ; ; false''\<rparr>
      else if k = 1 then \<lparr>rd_errno = None, rd_line = Some ''ls ; cmd1 | | cmd2''\<rparr>
      else \<lparr>rd_errno = None, rd_line = None\<rparr>)"

definition ex_env :: env where
  "ex_env =
     \<lparr>EXEC_FAILURE = 127, SYNTAX_ERROR_STR = ''Syntax error.'', PROMPT_STR = ''$ '',
      BUILTIN_ERROR = 2,
      getBuiltin = (\<lambda>name. if name = ''lecho'' then Some (\<lambda>argv. 0)
                            else if name = ''lcd'' then Some (\<lambda>argv. 2) else None),
      parseline = ex_parseline, getLine = ex_getLine, isatty_stdin = False, OPEN_MAX = 8,
      open_errno = (\<lambda>name oflags. if name = ''missing'' \<and> O_CREAT \<notin> oflags then Some ENOENT
                                   else if name = ''dir'' then Some EISDIR else None),
      exec_errno = (\<lambda>name. if name = ''nosuch'' then Some ENOENT else None),
      fork_pid = (\<lambda>k. 100 + int k), child_exits = (\<lambda>pid. True)\<rparr>"

definition dfl_action :: sigaction where
  "dfl_action = \<lparr>sa_handler = SIG_DFL, sa_flags = {}, sa_mask = {}\<rparr>"

definition ex_shell :: shell where
  "ex_shell =
     \<lparr>fds = [0 \<mapsto> Inherited 0, 1 \<mapsto> Inherited 1, 2 \<mapsto> Inherited 2],
      sigint_disp = dfl_action, sigchld_disp = dfl_action, sigchld_blocked = False,
      own_session = False, default_sigint_action = dfl_action,
      default_sigchld_action = dfl_action, foreground = [], pipes_made = 0, forks_made = 0,
      lines_read = 0, log = []\<rparr>"


definition ex_child :: "unit proc" where
  "ex_child = child_of (ex_shell\<lparr>fds := (fds ex_shell)(3 \<mapsto> Inherited 0), sigchld_blocked := True\<rparr>)"

definition cat_to_dir :: command where
  "cat_to_dir = \<lparr>args = [''cat''], redirs = [\<lparr>filename = ''dir'', r_flags = ROUT\<rparr>]\<rparr>"

definition nofork0 :: "env \<Rightarrow> bool" where
  "nofork0 e = (\<forall>k. fork_pid e k \<noteq> 0)"

text \<open>
  What the shell keeps true from line to line. \<open>J\<close> holds the action the
  shell has installed for \<^verbatim>\<open>SIGINT\<close>, the actions for \<^verbatim>\<open>SIGINT\<close> and \<^verbatim>\<open>SIGCHLD\<close>
  that were in force before the shell installed its own, and the length of
  the log at the start.
\<close>

type_synonym inv_params = "sigaction \<times> sigaction \<times> sigaction \<times> nat"

definition good_child :: "inv_params \<Rightarrow> child \<Rightarrow> bool" where
  "good_child J ch =
     (case J of (i, di, dc, n) \<Rightarrow>
        sigint_disp (state_of (child_outcome ch)) = di \<and>
        sigchld_disp (state_of (child_outcome ch)) = dc \<and>
        \<not> sigchld_blocked (state_of (child_outcome ch)) \<and>
        own_session (state_of (child_outcome ch)) = child_background ch)"

definition shell_inv :: "inv_params \<Rightarrow> shell \<Rightarrow> bool" where
  "shell_inv J s =
     (case J of (i, di, dc, n) \<Rightarrow>
        sigint_disp s = i \<and> default_sigint_action s = di \<and> default_sigchld_action s = dc \<and>
        n \<le> length (log s) \<and>
        list_all (good_child J) (map snd (forks (drop n (log s)))))"

definition pok :: "inv_params \<Rightarrow> ('a, shell) outcome \<Rightarrow> bool" where
  "pok J out =
     (shell_inv J (state_of out) \<and>
      (case out of Exited n s \<Rightarrow> n = EXIT_FAILURE | Execed p av s \<Rightarrow> False | _ \<Rightarrow> True))"

definition main_ok :: "inv_params \<Rightarrow> env \<Rightarrow> (unit, shell) outcome \<Rightarrow> bool" where
  "main_ok J e out =
     (shell_inv J (state_of out) \<and>
      (\<forall>n s'. out = Exited n s' \<longrightarrow>
         n = EXIT_FAILURE \<or>
         (n = EXIT_SUCCESS \<and> last (log s') = GetLine \<and> 0 < lines_read s' \<and>
          rd_line (getLine e (lines_read s' - 1)) = None \<and>
          rd_errno (getLine e (lines_read s' - 1)) \<noteq> Some EIO)) \<and>
      (\<forall>u s'. out \<noteq> Returned u s') \<and> (\<forall>p av s'. out \<noteq> Execed p av s'))"

definition ex_env_one :: env where
  "ex_env_one =
     ex_env\<lparr>getLine := (\<lambda>k. if k = 0 then \<lparr>rd_errno = None, rd_line = Some ''true ; ; false''\<rparr>
                            else \<lparr>rd_errno = None, rd_line = None\<rparr>)\<rparr>"


text \<open>The shell started with its standard output closed.\<close>

definition ex_shell_no_stdout :: shell where
  "ex_shell_no_stdout = ex_shell\<lparr>fds := [0 \<mapsto> Inherited 0, 2 \<mapsto> Inherited 2]\<rparr>"

text \<open>
  What the standard input and the standard output of a child refer to when
  it comes to execute its program.
\<close>

definition streams_at_exec :: "child \<Rightarrow> (descr option \<times> descr option) option" where
  "streams_at_exec ch =
     (case child_outcome ch of
        Execed p av t \<Rightarrow> Some (fds t STDIN_FILENO, fds t STDOUT_FILENO)
      | _ \<Rightarrow> None)"

definition stage_streams :: "child event list \<Rightarrow> (descr option \<times> descr option) option list" where
  "stage_streams evs = map (\<lambda>(pid, ch). streams_at_exec ch) (forks evs)"

text \<open>
  \<open>grows P s s'\<close>: the log of \<open>s'\<close> is the log of \<open>s\<close> followed by calls that all
  satisfy \<open>P\<close>.
\<close>

definition grows :: "('c event \<Rightarrow> bool) \<Rightarrow> 'c proc \<Rightarrow> 'c proc \<Rightarrow> bool" where
  "grows P s s' = (\<exists>evs. log s' = log s @ evs \<and> list_all P evs)"

text \<open>A call that neither runs a builtin nor creates a process.\<close>

definition other_call :: "'c event \<Rightarrow> bool" where
  "other_call ev = (\<not> is_builtin_call ev \<and> \<not> is_fork ev)"

definition ex_lcd :: command where
  "ex_lcd = \<lparr>args = [''lcd'', ''/nowhere''], redirs = []\<rparr>"

text \<open>
  \<open>launched e ch T\<close>: the child has come through the set-up of its
  descriptors with the descriptor table \<open>T\<close>, and the rest of its run is its
  redirections and the \<^verbatim>\<open>execvp\<close>.
\<close>

definition launched :: "env \<Rightarrow> child \<Rightarrow> (fd \<Rightarrow> descr option) \<Rightarrow> bool" where
  "launched e ch T =
     (\<exists>s6. fds s6 = T \<and>
        child_outcome ch =
          (case child_com ch of
             None \<Rightarrow> Faulted s6
           | Some c \<Rightarrow> and_then (add_all_redirs e (redirs c) s6) (\<lambda>_. exec_command e c)))"

text \<open>
  The streams of the children of a chain, in the words of the specification:
  \<open>B\<close> is the descriptor table of the shell, \<open>d\<close> what the stage at hand
  reads from, \<open>k\<close> the number of its pipe. Every stage but the last has the
  table of the shell with its input as standard input and the write end of
  its pipe as standard output; the last stage has the table of the shell
  with its input as standard input.
\<close>

fun streamed :: "env \<Rightarrow> (fd \<Rightarrow> descr option) \<Rightarrow> descr \<Rightarrow> nat \<Rightarrow> child list \<Rightarrow> bool" where
  "streamed e B d k [] = True"
| "streamed e B d k [ch] = launched e ch (B(STDIN_FILENO \<mapsto> d))"
| "streamed e B d k (ch # ch' # chs) =
     (launched e ch (B(STDIN_FILENO \<mapsto> d, STDOUT_FILENO \<mapsto> PipeWrite k)) \<and>
      streamed e B (PipeRead k) (Suc k) (ch' # chs))"

section \<open>Validation: the list of pipelines\<close>

lemma path_append: "path h p (as @ bs) q = (\<exists>r. path h p as r \<and> path h r bs q)"
  by (induction as arbitrary: p) (auto split: option.splits)

lemma path_upd: "u \<notin> set as \<Longrightarrow> path (h(u := v)) p as q = path h p as q"
  by (induction as arbitrary: p) (auto simp: deref_def split: option.splits)

lemma path_hd_deref:
  "path h p (a # as) q \<Longrightarrow> \<exists>node. deref h a = Some node \<and> path h (nxt node) as q"
  by (auto split: option.splits)

lemma deref_SomeD: "deref h a = Some node \<Longrightarrow> a \<noteq> NULL \<and> h a = Some node"
  by (auto simp: deref_def split: if_splits)

text \<open>The counting loop goes once around a ring and stops at the head.\<close>

lemma count_pipelines_path:
  "path h cur (a # as) start \<Longrightarrow> start \<notin> set as \<Longrightarrow>
   count_pipelines h start cur n = Some (n + Suc (length as), start)"
proof (induction as arbitrary: cur a n)
  case Nil
  then show ?case by (subst count_pipelines.simps) (auto split: option.splits)
next
  case (Cons b bs)
  from Cons.prems obtain node where
    n: "cur = a" "deref h a = Some node" "path h (nxt node) (b # bs) start"
    by (auto split: option.splits)
  then have nb: "nxt node = b" by simp
  with Cons.prems have ne: "nxt node \<noteq> start" by auto
  have "count_pipelines h start (nxt node) (Suc n) = Some (Suc n + Suc (length bs), start)"
    using Cons.IH[OF n(3)] Cons.prems(2) by simp
  then show ?case using n ne by (subst count_pipelines.simps) simp
qed

lemma find_nonempty_all_empty:
  "path h cur as q \<Longrightarrow> \<forall>a\<in>set as. empty_at h a \<Longrightarrow> find_nonempty (length as) h cur = Some q"
  by (induction as arbitrary: cur)
     (auto simp: empty_at_def deref_def split: option.splits if_splits)

lemma find_nonempty_first:
  "path h cur (as @ [b]) q \<Longrightarrow> \<forall>a\<in>set as. empty_at h a \<Longrightarrow> \<not> empty_at h b \<Longrightarrow>
   length as < k \<Longrightarrow> find_nonempty k h cur = Some b"
proof (induction as arbitrary: cur k)
  case Nil
  then obtain k' where "k = Suc k'" by (cases k) auto
  with Nil show ?case by (auto simp: empty_at_def deref_def split: option.splits if_splits)
next
  case (Cons a as)
  then obtain k' where k: "k = Suc k'" by (cases k) auto
  from Cons.prems obtain node where
    n: "cur = a" "deref h a = Some node" "path h (nxt node) (as @ [b]) q"
    by (auto split: option.splits)
  have e: "isEmptyPipeline (pipeline_of node)"
    using Cons.prems(2) n(2) by (auto simp: empty_at_def deref_def split: if_splits)
  have "find_nonempty k' h (nxt node) = Some b"
    using Cons.IH[OF n(3)] Cons.prems k by simp
  then show ?case using k n e by simp
qed

lemma same_contents_refl: "same_contents h h"
  by (simp add: same_contents_def)

lemma same_contents_trans: "same_contents h h1 \<Longrightarrow> same_contents h1 h2 \<Longrightarrow> same_contents h h2"
  by (simp add: same_contents_def)

lemma same_contents_empty_at: "same_contents h h' \<Longrightarrow> empty_at h' a = empty_at h a"
  unfolding same_contents_def empty_at_def
  by (erule_tac x = a in allE) (auto split: option.splits)

lemma same_contents_upd:
  "h prev = Some pn \<Longrightarrow> same_contents h (h(prev \<mapsto> pn\<lparr>nxt := x\<rparr>))"
  by (simp add: same_contents_def)

lemma remove_loop_todo:
  "path h c todo e \<Longrightarrow> deref h prev = Some pn \<Longrightarrow> nxt pn = c \<Longrightarrow> prev \<notin> set todo \<Longrightarrow>
   distinct todo \<Longrightarrow>
   \<exists>h' prev' pn'.
     remove_loop (length todo + k) h prev c num =
       remove_loop k h' prev' e (num - length (filter (empty_at h) todo)) \<and>
     path h' prev (prev # filter (\<lambda>a. \<not> empty_at h a) todo) e \<and>
     (\<forall>a. a \<notin> set (prev # todo) \<longrightarrow> h' a = h a) \<and>
     same_contents h h' \<and>
     deref h' prev' = Some pn'"
proof (induction todo arbitrary: h c prev pn num)
  case Nil
  then show ?case
    by (intro exI[of _ h] exI[of _ prev] exI[of _ pn]) (simp add: same_contents_refl)
next
  case (Cons a rest)
  from Cons.prems(1) obtain cn where cn: "c = a" "deref h a = Some cn" "path h (nxt cn) rest e"
    by (auto split: option.splits)
  have pnn: "prev \<noteq> NULL" "h prev = Some pn"
    using Cons.prems(2) by (auto simp: deref_def split: if_splits)
  have ann: "a \<noteq> NULL" "h a = Some cn"
    using cn(2) by (auto simp: deref_def split: if_splits)
  show ?case
  proof (cases "isEmptyPipeline (pipeline_of cn)")
    case True
    let ?h1 = "h(prev \<mapsto> pn\<lparr>nxt := nxt cn\<rparr>)"
    have sc1: "same_contents h ?h1" using pnn by (rule_tac same_contents_upd) simp
    have p1: "path ?h1 (nxt cn) rest e"
      using cn(3) Cons.prems(4) by (simp add: path_upd)
    have d1: "deref ?h1 prev = Some (pn\<lparr>nxt := nxt cn\<rparr>)"
      using pnn by (simp add: deref_def)
    have n1: "nxt (pn\<lparr>nxt := nxt cn\<rparr>) = nxt cn" by simp
    have pr: "prev \<notin> set rest" and dr: "distinct rest" using Cons.prems(4,5) by auto
    have "\<exists>h' prev' pn'.
      remove_loop (length rest + k) ?h1 prev (nxt cn) (num - 1) =
         remove_loop k h' prev' e (num - 1 - length (filter (empty_at ?h1) rest)) \<and>
      path h' prev (prev # filter (\<lambda>a. \<not> empty_at ?h1 a) rest) e \<and>
      (\<forall>a. a \<notin> set (prev # rest) \<longrightarrow> h' a = ?h1 a) \<and>
      same_contents ?h1 h' \<and>
      deref h' prev' = Some pn'"
      by (rule Cons.IH[OF p1 d1 n1 pr dr])
    then obtain h' prev' pn' where ih:
      "remove_loop (length rest + k) ?h1 prev (nxt cn) (num - 1) =
         remove_loop k h' prev' e (num - 1 - length (filter (empty_at ?h1) rest))"
      "path h' prev (prev # filter (\<lambda>a. \<not> empty_at ?h1 a) rest) e"
      "\<forall>a. a \<notin> set (prev # rest) \<longrightarrow> h' a = ?h1 a"
      "same_contents ?h1 h'"
      "deref h' prev' = Some pn'"
      by blast
    have ea: "empty_at ?h1 = empty_at h"
      using same_contents_empty_at[OF sc1] by auto
    have eh: "empty_at h a" using ann True by (simp add: empty_at_def)
    have step: "remove_loop (length (a # rest) + k) h prev c num =
        remove_loop (length rest + k) ?h1 prev (nxt cn) (num - 1)"
      using cn Cons.prems(2) True by simp
    show ?thesis
      apply (intro exI[of _ h'] exI[of _ prev'] exI[of _ pn'])
      using ih step ea eh sc1 same_contents_trans[OF sc1 ih(4)]
      by (auto simp del: remove_loop.simps path.simps)
  next
    case False
    have an: "a \<notin> set rest" using Cons.prems(5) by simp
    have dr: "distinct rest" using Cons.prems(5) by simp
    have "\<exists>h' prev' pn'.
      remove_loop (length rest + k) h a (nxt cn) num =
         remove_loop k h' prev' e (num - length (filter (empty_at h) rest)) \<and>
      path h' a (a # filter (\<lambda>a. \<not> empty_at h a) rest) e \<and>
      (\<forall>b. b \<notin> set (a # rest) \<longrightarrow> h' b = h b) \<and>
      same_contents h h' \<and>
      deref h' prev' = Some pn'"
      by (rule Cons.IH[OF cn(3) cn(2) refl an dr])
    then obtain h' prev' pn' where ih:
      "remove_loop (length rest + k) h a (nxt cn) num =
         remove_loop k h' prev' e (num - length (filter (empty_at h) rest))"
      "path h' a (a # filter (\<lambda>a. \<not> empty_at h a) rest) e"
      "\<forall>b. b \<notin> set (a # rest) \<longrightarrow> h' b = h b"
      "same_contents h h'"
      "deref h' prev' = Some pn'"
      by blast
    have eh: "\<not> empty_at h a" using ann False by (simp add: empty_at_def)
    have step: "remove_loop (length (a # rest) + k) h prev c num =
        remove_loop (length rest + k) h a (nxt cn) num"
      using cn Cons.prems(2,3) False by simp
    have hp: "h' prev = h prev" using ih(3) Cons.prems(4) by simp
    have pp: "path h' prev (prev # a # filter (\<lambda>a. \<not> empty_at h a) rest) e"
      using ih(2) hp pnn Cons.prems(3) cn(1) by (simp add: deref_def)
    show ?thesis
      apply (intro exI[of _ h'] exI[of _ prev'] exI[of _ pn'])
      using ih step eh pp
      by (auto simp del: remove_loop.simps path.simps)
  qed
qed


lemma check_validity_head:
  "deref h cur = Some node \<Longrightarrow> pipeline_of node = Some p \<Longrightarrow> commands p \<noteq> [] \<Longrightarrow>
   check_validity (Suc k) h cur = Some (\<not> has_null_command (commands p))"
  by (induction k) (auto split: list.splits)

lemma ring_rotate:
  assumes "ring h (as @ b # bs)"
  shows "ring h (b # bs @ as)"
proof -
  let ?s = "hd (as @ b # bs)"
  from assms have p: "path h ?s (as @ b # bs) ?s" and d: "distinct (as @ b # bs)"
    by (auto simp: ring_def)
  from p obtain r where r: "path h ?s as r" "path h r (b # bs) ?s"
    unfolding path_append by blast
  then have rb: "r = b" by simp
  have "path h b ((b # bs) @ as) b"
    unfolding path_append using r rb by blast
  then show ?thesis using d by (auto simp: ring_def)
qed

lemma nonempty_pipelineD:
  "\<not> isEmptyPipeline po \<Longrightarrow> \<exists>p. po = Some p \<and> commands p \<noteq> []"
  by (cases po) (auto split: list.splits)

lemma removeEmptyPipelines_all_empty:
  assumes "ring h ns" and "\<forall>a\<in>set ns. empty_at h a"
  shows "removeEmptyPipelines h (hd ns) = Some (0, h, NULL)"
proof -
  from assms(1) obtain a rest where ns: "ns = a # rest" by (cases ns) (auto simp: ring_def)
  from assms(1) have p: "path h a (a # rest) a" and d: "a \<notin> set rest"
    by (auto simp: ring_def ns)
  have cnt: "count_pipelines h a a 0 = Some (length ns, a)"
    using count_pipelines_path[OF p d, of 0] by (simp add: ns)
  have fnd: "find_nonempty (length ns) h a = Some a"
    using find_nonempty_all_empty[OF p] assms(2) by (simp add: ns)
  from path_hd_deref[OF p] obtain node where n: "deref h a = Some node" by blast
  have e: "isEmptyPipeline (pipeline_of node)"
    using assms(2) deref_SomeD[OF n] by (simp add: ns empty_at_def)
  have "a \<noteq> NULL" using deref_SomeD[OF n] by simp
  then have "removeEmptyPipelines h a = Some (0, h, NULL)"
    by (simp add: removeEmptyPipelines_def cnt fnd n e)
  then show ?thesis by (simp add: ns)
qed

lemma removeEmptyPipelines_nonempty:
  assumes "ring h ns" and ex: "\<exists>a\<in>set ns. \<not> empty_at h a"
  defines "ne \<equiv> filter (\<lambda>a. \<not> empty_at h a) ns"
  shows "\<exists>h'. removeEmptyPipelines h (hd ns) =
           Some (if head_invalid h (hd ne) then (- 1, h', NULL) else (int (length ne), h', hd ne)) \<and>
         ring h' ne \<and> same_contents h h'"
proof -
  from split_list_first_prop[OF ex] obtain as b bs where
    ns: "ns = as @ b # bs" and b: "\<not> empty_at h b" and as: "\<forall>a\<in>set as. empty_at h a"
    by auto
  let ?s = "hd ns"
  from assms(1) obtain s rest where sr: "ns = s # rest" by (cases ns) (auto simp: ring_def)
  from assms(1) have p: "path h s (s # rest) s" and d: "s \<notin> set rest" and dn: "distinct ns"
    by (auto simp: ring_def sr)
  have snn: "s \<noteq> NULL" using path_hd_deref[OF p] deref_SomeD by blast
  have cnt: "count_pipelines h s s 0 = Some (length ns, s)"
    using count_pipelines_path[OF p d, of 0] by (simp add: sr)
  have "path h s ((as @ [b]) @ bs) s" using p by (simp add: sr[symmetric] ns)
  then obtain q where q: "path h s (as @ [b]) q" unfolding path_append by blast
  have fnd: "find_nonempty (length ns) h s = Some b"
    by (rule find_nonempty_first[OF q as b]) (simp add: ns)
  have rr: "ring h (b # bs @ as)" using assms(1) unfolding ns by (rule ring_rotate)
  then have pb: "path h b (b # bs @ as) b" and db: "b \<notin> set (bs @ as)" "distinct (bs @ as)"
    by (auto simp: ring_def)
  from path_hd_deref[OF pb] obtain node where
    n: "deref h b = Some node" and pn: "path h (nxt node) (bs @ as) b" by blast
  have hb: "h b = Some node" using deref_SomeD[OF n] by simp
  have nb: "\<not> isEmptyPipeline (pipeline_of node)" using b hb by (simp add: empty_at_def)
  from nonempty_pipelineD[OF nb] obtain pl where pl: "pipeline_of node = Some pl" "commands pl \<noteq> []"
    by blast
  have len: "length ns = length (bs @ as) + 1" by (simp add: ns)
  from remove_loop_todo[OF pn n refl db, of 1 "length ns"]
  obtain h' prev' pn' where rl:
    "remove_loop (length (bs @ as) + 1) h b (nxt node) (length ns) =
       remove_loop 1 h' prev' b (length ns - length (filter (empty_at h) (bs @ as)))"
    "path h' b (b # filter (\<lambda>a. \<not> empty_at h a) (bs @ as)) b"
    "same_contents h h'"
    "deref h' prev' = Some pn'"
    by blast
  have nee: "ne = b # filter (\<lambda>a. \<not> empty_at h a) bs"
    using as b by (simp add: ne_def ns)
  have fl: "filter (\<lambda>a. \<not> empty_at h a) (bs @ as) = filter (\<lambda>a. \<not> empty_at h a) bs"
    using as by simp
  from path_hd_deref[OF rl(2)] obtain node' where n': "deref h' b = Some node'" by blast
  have hb': "h' b = Some node'" using deref_SomeD[OF n'] by simp
  have pl': "pipeline_of node' = Some pl"
    using rl(3) hb hb' pl(1) unfolding same_contents_def by (metis option.simps(9) option.inject)
  have nb': "\<not> isEmptyPipeline (pipeline_of node')" using nb pl pl' by simp
  have "length (filter (empty_at h) (bs @ as)) + length (filter (\<lambda>a. \<not> empty_at h a) (bs @ as))
        = length (bs @ as)"
    using sum_length_filter_compl[of "empty_at h" "bs @ as"] by simp
  then have num: "length ns - length (filter (empty_at h) (bs @ as)) = length ne"
    unfolding len fl nee by simp
  have last_iter: "remove_loop 1 h' prev' b (length ne) = Some (h', length ne)"
    using n' rl(4) nb' by simp
  have rl1: "remove_loop (length ns) h b (nxt node) (length ns) = Some (h', length ne)"
    using rl(1) last_iter unfolding num len[symmetric] by simp
  have lne: "length ne = Suc (length (filter (\<lambda>a. \<not> empty_at h a) bs))" by (simp add: nee)
  have cv: "check_validity (length ne) h' b = Some (\<not> has_null_command (commands pl))"
    unfolding lne by (rule check_validity_head[OF n' pl' pl(2)])
  have hi: "head_invalid h (hd ne) = has_null_command (commands pl)"
    by (simp add: nee head_invalid_def hb pl)
  have ringh': "ring h' ne"
    using rl(2) dn unfolding fl nee ring_def by (auto simp: ns)
  have "removeEmptyPipelines h s =
      Some (if head_invalid h (hd ne) then (- 1, h', NULL) else (int (length ne), h', hd ne))"
    using snn by (simp add: removeEmptyPipelines_def cnt fnd n nb rl1 cv hi) (simp add: nee)
  then show ?thesis using ringh' rl(3) by (auto simp: sr)
qed


lemma pipelines_at_simps:
  "pipelines_at h [] = []"
  "pipelines_at h (a # as) = (case h a of None \<Rightarrow> None | Some node \<Rightarrow> pipeline_of node) # pipelines_at h as"
  by (simp_all add: pipelines_at_def)

lemma length_pipelines_at: "length (pipelines_at h ns) = length ns"
  by (simp add: pipelines_at_def)

lemma run_pipelines_path:
  "path h p ns q \<Longrightarrow> \<forall>a\<in>set ns. \<not> empty_at h a \<Longrightarrow>
   run_pipelines e (length ns) h p s = run_seq e (map the (pipelines_at h ns)) s"
proof (induction ns arbitrary: p s)
  case Nil
  then show ?case by (simp add: pipelines_at_simps)
next
  case (Cons a as)
  from Cons.prems(1) obtain node where
    n: "p = a" "deref h a = Some node" "path h (nxt node) as q"
    by (auto split: option.splits)
  have ha: "h a = Some node" using deref_SomeD[OF n(2)] by simp
  have "\<not> isEmptyPipeline (pipeline_of node)"
    using Cons.prems(2) ha by (simp add: empty_at_def)
  from nonempty_pipelineD[OF this] obtain pl where pl: "pipeline_of node = Some pl" by blast
  have ih: "run_pipelines e (length as) h (nxt node) = run_seq e (map the (pipelines_at h as))"
    using Cons.IH[OF n(3)] Cons.prems(2) by (intro ext) simp
  show ?case using n ha pl by (simp add: ih pipelines_at_simps)
qed

lemma same_contents_at:
  "same_contents h h' \<Longrightarrow>
   (case h' a of None \<Rightarrow> None | Some node \<Rightarrow> pipeline_of node) =
   (case h a of None \<Rightarrow> None | Some node \<Rightarrow> pipeline_of node)"
  unfolding same_contents_def
  by (erule_tac x = a in allE) (auto split: option.splits)

lemma pipelines_at_same_contents:
  "same_contents h h' \<Longrightarrow> pipelines_at h' ns = pipelines_at h ns"
  by (induction ns) (simp_all add: pipelines_at_simps same_contents_at)
lemma filter_pipelines_at:
  "filter (\<lambda>p. \<not> isEmptyPipeline p) (pipelines_at h ns) =
   pipelines_at h (filter (\<lambda>a. \<not> empty_at h a) ns)"
  by (induction ns) (auto simp: pipelines_at_simps empty_at_def split: option.splits)

lemma handleLine_validated:
  assumes "ring h ns" and "parseline e line = (h, hd ns)"
    and "rd_errno (getLine e (lines_read s)) \<noteq> Some EIO"
    and "rd_line (getLine e (lines_read s)) = Some line"
    and "removeEmptyPipelines h (hd ns) = Some (count, h', p')" and "count \<noteq> - 1"
  shows "count = int (length (filter (\<lambda>p. \<not> isEmptyPipeline p) (pipelines_at h ns))) \<and>
         handleLine e s =
           run_seq e (map the (filter (\<lambda>p. \<not> isEmptyPipeline p) (pipelines_at h ns)))
             (logged GetLine (s\<lparr>lines_read := Suc (lines_read s)\<rparr>))"
proof (cases "\<exists>a\<in>set ns. \<not> empty_at h a")
  case False
  then have "removeEmptyPipelines h (hd ns) = Some (0, h, NULL)"
    using removeEmptyPipelines_all_empty[OF assms(1)] by simp
  moreover have "filter (\<lambda>a. \<not> empty_at h a) ns = []" using False by (simp add: filter_empty_conv)
  ultimately show ?thesis using assms(2-5)
    by (simp add: handleLine_def filter_pipelines_at pipelines_at_simps)
next
  case True
  let ?ne = "filter (\<lambda>a. \<not> empty_at h a) ns"
  from removeEmptyPipelines_nonempty[OF assms(1) True] obtain h1 where
    r: "removeEmptyPipelines h (hd ns) =
          Some (if head_invalid h (hd ?ne) then (- 1, h1, NULL) else (int (length ?ne), h1, hd ?ne))"
    and rg: "ring h1 ?ne" and sc: "same_contents h h1"
    by blast
  from r assms(5,6) have eq: "count = int (length ?ne)" "h' = h1" "p' = hd ?ne"
    by (auto split: if_splits)
  have ne: "\<forall>a\<in>set ?ne. \<not> empty_at h1 a"
    using same_contents_empty_at[OF sc] by simp
  have p: "path h1 (hd ?ne) ?ne (hd ?ne)" using rg by (simp add: ring_def)
  have "run_pipelines e (length ?ne) h1 (hd ?ne) s1 = run_seq e (map the (pipelines_at h ?ne)) s1" for s1
    using run_pipelines_path[OF p ne] pipelines_at_same_contents[OF sc] by simp
  then show ?thesis using assms(2-5) eq
    by (simp add: handleLine_def filter_pipelines_at length_pipelines_at)
qed


text \<open>
  C7. Validation drops every pipeline that is entirely empty and keeps the
  others in their order: for a line that the parser hands over as a ring of
  pipelines, \<^verbatim>\<open>removeEmptyPipelines\<close> returns; when it does not report an
  error, the count is the number of non-empty pipelines and \<^verbatim>\<open>handleLine\<close>
  runs exactly these, in the order of the line; when all pipelines are empty
  the result is the count 0 and not the error \<open>-1\<close>. The line
  \<^verbatim>\<open>true ; ; false\<close> runs two pipelines.
\<close>

theorem C7_empty_pipelines_dropped:
  assumes "ring h ns" and "parseline e line = (h, hd ns)"
    and "rd_errno (getLine e (lines_read s)) \<noteq> Some EIO"
    and "rd_line (getLine e (lines_read s)) = Some line"
  shows "\<exists>count h' p'.
           removeEmptyPipelines h (hd ns) = Some (count, h', p') \<and>
           (count \<noteq> - 1 \<longrightarrow>
              count = int (length (filter (\<lambda>p. \<not> isEmptyPipeline p) (pipelines_at h ns))) \<and>
              handleLine e s =
                run_seq e (map the (filter (\<lambda>p. \<not> isEmptyPipeline p) (pipelines_at h ns)))
                  (logged GetLine (s\<lparr>lines_read := Suc (lines_read s)\<rparr>))) \<and>
           ((\<forall>a\<in>set ns. empty_at h a) \<longrightarrow> count = 0)"
proof -
  have "\<exists>r. removeEmptyPipelines h (hd ns) = Some r \<and> ((\<forall>a\<in>set ns. empty_at h a) \<longrightarrow> fst r = 0)"
  proof (cases "\<exists>a\<in>set ns. \<not> empty_at h a")
    case True
    from removeEmptyPipelines_nonempty[OF assms(1) True] show ?thesis using True by auto
  next
    case False
    then show ?thesis using removeEmptyPipelines_all_empty[OF assms(1)] by simp
  qed
  then obtain count h' p' where
    r: "removeEmptyPipelines h (hd ns) = Some (count, h', p')"
    and z: "(\<forall>a\<in>set ns. empty_at h a) \<longrightarrow> count = 0"
    by (metis fst_conv prod_cases3)
  show ?thesis
    using r z handleLine_validated[OF assms r] by blast
qed

theorem C7_witness_true_false:
  "handleLine ex_env ex_shell =
     run_seq ex_env
       [\<lparr>commands = [cmd [''true'']], pl_flags = INFOREGROUND\<rparr>,
        \<lparr>commands = [cmd [''false'']], pl_flags = INFOREGROUND\<rparr>]
       (logged GetLine (ex_shell\<lparr>lines_read := 1\<rparr>))"
proof -
  have rg: "ring line_true_false [1, 2, 3]"
    by (simp add: ring_def line_true_false_def deref_def NULL_def ex_node_def)
  have pl: "parseline ex_env ''true ; ; false'' = (line_true_false, hd [1, 2, 3])"
    by (simp add: ex_env_def ex_parseline_def)
  have e1: "rd_errno (getLine ex_env (lines_read ex_shell)) \<noteq> Some EIO"
    by (simp add: ex_env_def ex_getLine_def ex_shell_def)
  have e2: "rd_line (getLine ex_env (lines_read ex_shell)) = Some ''true ; ; false''"
    by (simp add: ex_env_def ex_getLine_def ex_shell_def)
  have ev: "removeEmptyPipelines line_true_false (hd [1, 2, 3]) =
      Some (2, line_true_false(1 \<mapsto> ex_node [cmd [''true'']] 3), 1)"
    by (simp add: removeEmptyPipelines_def count_pipelines.simps line_true_false_def deref_def
        NULL_def ex_node_def cmd_def)
  have ps: "filter (\<lambda>p. \<not> isEmptyPipeline p) (pipelines_at line_true_false [1, 2, 3]) =
      [Some \<lparr>commands = [cmd [''true'']], pl_flags = INFOREGROUND\<rparr>,
       Some \<lparr>commands = [cmd [''false'']], pl_flags = INFOREGROUND\<rparr>]"
    by (simp add: pipelines_at_def line_true_false_def ex_node_def cmd_def)
  have ls: "ex_shell\<lparr>lines_read := Suc (lines_read ex_shell)\<rparr> = ex_shell\<lparr>lines_read := 1\<rparr>"
    by (simp add: ex_shell_def)
  from C7_empty_pipelines_dropped[OF rg pl e1 e2] show ?thesis
    unfolding ev ps ls by simp
qed

section \<open>The chain of a pipeline\<close>

lemma free_fd_SomeD: "free_fd e T = Some n \<Longrightarrow> T n = None"
  unfolding free_fd_def by (auto simp: find_Some_iff)

lemma and_then_Returned:
  "and_then m f = Returned u s' \<longleftrightarrow> (\<exists>x s1. m = Returned x s1 \<and> f x s1 = Returned u s')"
  by (cases m) auto

lemma closeFileDescriptor_Returned:
  "closeFileDescriptor d s = Returned u s' \<longleftrightarrow>
     fds s d \<noteq> None \<and> s' = logged (Close d 0) (s\<lparr>fds := (fds s)(d := None)\<rparr>)"
  by (auto simp: closeFileDescriptor_def sys_close_def split: option.splits)

lemma exec_command_not_Returned: "exec_command e c s \<noteq> Returned u s'"
  by (auto simp: exec_command_def Let_def split: option.splits)

lemma child_not_Returned: "after_fork e 0 com rd pf bg s \<noteq> Returned u s'"
  by (auto simp: after_fork_def Let_def and_then_Returned exec_command_not_Returned
      split: option.splits)

lemma runCommand_Returned:
  "runCommand e com rd pf bg s = Returned u s' \<longleftrightarrow>
     fork_pid e (forks_made s) \<noteq> - 1 \<and> fork_pid e (forks_made s) \<noteq> 0 \<and>
     s' = s\<lparr>foreground := foreground s @ (if bg then [] else [fork_pid e (forks_made s)]),
            forks_made := Suc (forks_made s),
            log := log s @
              [Fflush, Fork (fork_pid e (forks_made s)) (Some (fork_child e com rd pf bg (logged Fflush s)))] @
              (if bg then [] else [RegisterForegroundChild (fork_pid e (forks_made s))])\<rparr>"
proof (cases "fork_pid e (forks_made s) = 0")
  case True
  then show ?thesis
    using child_not_Returned[of e com rd pf bg] by (simp add: runCommand_def Let_def logged_def)
next
  case False
  then show ?thesis
    by (cases bg)
       (auto simp: runCommand_def Let_def logged_def after_fork_def registerForegroundChild_def)
qed

lemma fork_child_simps:
  "child_com (fork_child e com rd pf bg s) = com"
  "child_read_fd (fork_child e com rd pf bg s) = rd"
  "child_pipe_fds (fork_child e com rd pf bg s) = pf"
  "child_background (fork_child e com rd pf bg s) = bg"
  "child_image (fork_child e com rd pf bg s) = child_of s"
  by (simp_all add: fork_child_def)

lemma born_of_fork_child:
  "sigint_disp s1 = sigint_disp s \<Longrightarrow> sigchld_disp s1 = sigchld_disp s \<Longrightarrow>
   sigchld_blocked s1 = sigchld_blocked s \<Longrightarrow>
   default_sigint_action s1 = default_sigint_action s \<Longrightarrow>
   default_sigchld_action s1 = default_sigchld_action s \<Longrightarrow>
   born_of e bg s (fork_child e com rd pf bg s1)"
  by (simp add: born_of_def fork_child_def child_of_def)

lemma born_of_cong:
  "sigint_disp s1 = sigint_disp s \<Longrightarrow> sigchld_disp s1 = sigchld_disp s \<Longrightarrow>
   sigchld_blocked s1 = sigchld_blocked s \<Longrightarrow>
   default_sigint_action s1 = default_sigint_action s \<Longrightarrow>
   default_sigchld_action s1 = default_sigchld_action s \<Longrightarrow>
   born_of e bg s1 = born_of e bg s"
  by (intro ext) (simp add: born_of_def)

lemma launch_last_Returned:
  assumes "launch_stages e c [] rd bg s = Returned u s'" and "fds s = B(rd \<mapsto> d)" and "B rd = None"
  shows "\<exists>pid ch.
     wired B rd d (pipes_made s) [c] [ch] \<and> born_of e bg s ch \<and>
     s' = s\<lparr>fds := B,
            foreground := foreground s @ (if bg then [] else [pid]),
            forks_made := Suc (forks_made s),
            log := log s @ chain_events bg rd [(pid, ch)]\<rparr>"
proof -
  let ?pid = "fork_pid e (forks_made s)"
  let ?ch = "fork_child e c rd None bg (logged Fflush s)"
  have B: "(B(rd \<mapsto> d))(rd := None) = B" using assms(3) by auto
  have w: "wired B rd d (pipes_made s) [c] [?ch]"
    using assms(2) by (simp add: fork_child_def child_of_def logged_def)
  have b: "born_of e bg s ?ch"
    by (rule born_of_fork_child) (simp_all add: logged_def)
  from assms(1) obtain s2 where
    rc: "runCommand e c rd None bg s = Returned () s2" and cl: "closeFileDescriptor rd s2 = Returned u s'"
    by (auto simp: and_then_Returned)
  have s2: "s2 = s\<lparr>foreground := foreground s @ (if bg then [] else [?pid]),
            forks_made := Suc (forks_made s),
            log := log s @ [Fflush, Fork ?pid (Some ?ch)] @
              (if bg then [] else [RegisterForegroundChild ?pid])\<rparr>"
    using rc by (simp add: runCommand_Returned)
  have "s' = s\<lparr>fds := B,
            foreground := foreground s @ (if bg then [] else [?pid]),
            forks_made := Suc (forks_made s),
            log := log s @ chain_events bg rd [(?pid, ?ch)]\<rparr>"
    using cl assms(2) B unfolding closeFileDescriptor_Returned s2
    by (simp add: logged_def stage_events_def fork_child_def)
  with w b show ?thesis by blast
qed


lemma sys_pipe_ok:
  assumes "sys_pipe e s = (r0, pf, s1)" and "r0 \<noteq> - 1"
  shows "\<exists>r w. pf = (r, w) \<and> fds s r = None \<and> fds s w = None \<and> r \<noteq> w \<and>
     s1 = logged (Pipe 0 (r, w))
            (s\<lparr>fds := (fds s)(r \<mapsto> PipeRead (pipes_made s), w \<mapsto> PipeWrite (pipes_made s)),
               pipes_made := Suc (pipes_made s)\<rparr>)"
proof -
  from assms obtain r w where
    f: "free_fd e (fds s) = Some r" "free_fd e ((fds s)(r \<mapsto> PipeRead (pipes_made s))) = Some w"
    and p: "pf = (r, w)"
    and s1: "s1 = logged (Pipe 0 (r, w))
            (s\<lparr>fds := (fds s)(r \<mapsto> PipeRead (pipes_made s), w \<mapsto> PipeWrite (pipes_made s)),
               pipes_made := Suc (pipes_made s)\<rparr>)"
    by (auto simp: sys_pipe_def split: option.splits)
  have "fds s r = None" using free_fd_SomeD[OF f(1)] .
  moreover have "((fds s)(r \<mapsto> PipeRead (pipes_made s))) w = None" using free_fd_SomeD[OF f(2)] .
  then have "w \<noteq> r \<and> fds s w = None" by (auto split: if_splits)
  ultimately show ?thesis using p s1 by auto
qed

lemma launch_step_Returned:
  assumes "launch_stages e c (c' # cs) rd bg s = Returned u s'"
    and "fds s = B(rd \<mapsto> d)" and "B rd = None"
  shows "\<exists>r w pid ch s4.
     launch_stages e c' cs r bg s4 = Returned u s' \<and>
     child_com ch = c \<and> child_read_fd ch = rd \<and> child_pipe_fds ch = Some (r, w) \<and>
     fds (child_image ch) = B(rd \<mapsto> d, r \<mapsto> PipeRead (pipes_made s), w \<mapsto> PipeWrite (pipes_made s)) \<and>
     B r = None \<and> B w = None \<and> r \<noteq> rd \<and> w \<noteq> rd \<and> r \<noteq> w \<and>
     born_of e bg s ch \<and>
     s4 = s\<lparr>fds := B(r \<mapsto> PipeRead (pipes_made s)),
            foreground := foreground s @ (if bg then [] else [pid]),
            pipes_made := Suc (pipes_made s),
            forks_made := Suc (forks_made s),
            log := log s @ stage_events bg rd pid ch\<rparr>"
proof -
  obtain r0 pf s1 where sp: "sys_pipe e s = (r0, pf, s1)" by (cases "sys_pipe e s") auto
  from assms(1) sp have ok: "r0 \<noteq> - 1" by (auto split: if_splits)
  from sys_pipe_ok[OF sp ok] obtain r w where
    pf: "pf = (r, w)" and fr: "fds s r = None" "fds s w = None" "r \<noteq> w"
    and s1: "s1 = logged (Pipe 0 (r, w))
            (s\<lparr>fds := (fds s)(r \<mapsto> PipeRead (pipes_made s), w \<mapsto> PipeWrite (pipes_made s)),
               pipes_made := Suc (pipes_made s)\<rparr>)"
    by blast
  have neq: "r \<noteq> rd" "w \<noteq> rd" "B r = None" "B w = None"
    using fr assms(2) by (auto split: if_splits)
  let ?pid = "fork_pid e (forks_made s)"
  let ?ch = "fork_child e c rd (Some (r, w)) bg (logged Fflush s1)"
  let ?s4 = "s\<lparr>fds := B(r \<mapsto> PipeRead (pipes_made s)),
            foreground := foreground s @ (if bg then [] else [?pid]),
            pipes_made := Suc (pipes_made s),
            forks_made := Suc (forks_made s),
            log := log s @ stage_events bg rd ?pid ?ch\<rparr>"
  have tbl: "((fds s)(r \<mapsto> PipeRead (pipes_made s), w \<mapsto> PipeWrite (pipes_made s)))(rd := None, w := None)
      = B(r \<mapsto> PipeRead (pipes_made s))"
    using assms(2,3) neq fr by (auto simp: fun_eq_iff)
  have cp: "child_pipe_fds ?ch = Some (r, w)" by (simp add: fork_child_def)
  from assms(1) sp ok pf
  have "\<exists>s2 s3 s4. runCommand e c rd (Some (r, w)) bg s1 = Returned () s2 \<and>
      closeFileDescriptor rd s2 = Returned () s3 \<and> closeFileDescriptor w s3 = Returned () s4 \<and>
      launch_stages e c' cs r bg s4 = Returned u s'"
    by (auto simp: and_then_Returned)
  then obtain s2 s3 s4 where
    rc: "runCommand e c rd (Some (r, w)) bg s1 = Returned () s2"
    and c1: "closeFileDescriptor rd s2 = Returned () s3"
    and c2: "closeFileDescriptor w s3 = Returned () s4"
    and rest: "launch_stages e c' cs r bg s4 = Returned u s'"
    by blast
  have fm: "forks_made s1 = forks_made s" "foreground s1 = foreground s" by (simp_all add: s1 logged_def)
  have s2: "s2 = s1\<lparr>foreground := foreground s @ (if bg then [] else [?pid]),
            forks_made := Suc (forks_made s),
            log := log s1 @ [Fflush, Fork ?pid (Some ?ch)] @
              (if bg then [] else [RegisterForegroundChild ?pid])\<rparr>"
    using rc by (simp add: runCommand_Returned fm)
  have s3: "s3 = logged (Close rd 0) (s2\<lparr>fds := (fds s2)(rd := None)\<rparr>)"
    using c1 by (simp add: closeFileDescriptor_Returned)
  have s4: "s4 = logged (Close w 0) (s3\<lparr>fds := (fds s3)(w := None)\<rparr>)"
    using c2 by (simp add: closeFileDescriptor_Returned)
  have "s4 = ?s4"
    unfolding s4 s3 s2 s1 using tbl
    by (simp add: logged_def stage_events_def fork_child_simps)
  moreover have "born_of e bg s ?ch"
    by (rule born_of_fork_child) (simp_all add: logged_def s1)
  moreover have "fds (child_image ?ch) =
      B(rd \<mapsto> d, r \<mapsto> PipeRead (pipes_made s), w \<mapsto> PipeWrite (pipes_made s))"
    using assms(2) by (simp add: fork_child_def child_of_def logged_def s1)
  moreover have "child_com ?ch = c \<and> child_read_fd ?ch = rd" by (simp add: fork_child_def)
  ultimately show ?thesis using rest neq fr(3) cp by blast
qed

lemma launch_stages_Returned:
  "launch_stages e c cs rd bg s = Returned u s' \<Longrightarrow> fds s = B(rd \<mapsto> d) \<Longrightarrow> B rd = None \<Longrightarrow>
   \<exists>stages. length stages = Suc (length cs) \<and>
     wired B rd d (pipes_made s) (c # cs) (map snd stages) \<and>
     list_all (born_of e bg s) (map snd stages) \<and>
     s' = s\<lparr>fds := B,
            foreground := foreground s @ (if bg then [] else map fst stages),
            pipes_made := pipes_made s + length cs,
            forks_made := forks_made s + Suc (length cs),
            log := log s @ chain_events bg rd stages\<rparr>"
proof (induction cs arbitrary: c rd d s)
  case Nil
  from launch_last_Returned[OF Nil] obtain pid ch where
    "wired B rd d (pipes_made s) [c] [ch]" "born_of e bg s ch"
    "s' = s\<lparr>fds := B, foreground := foreground s @ (if bg then [] else [pid]),
            forks_made := Suc (forks_made s), log := log s @ chain_events bg rd [(pid, ch)]\<rparr>"
    by blast
  then show ?case by (intro exI[of _ "[(pid, ch)]"]) simp
next
  case (Cons c' cs)
  from launch_step_Returned[OF Cons.prems] obtain r w pid ch s4 where
    rest: "launch_stages e c' cs r bg s4 = Returned u s'"
    and ch: "child_com ch = c" "child_read_fd ch = rd" "child_pipe_fds ch = Some (r, w)"
      "fds (child_image ch) = B(rd \<mapsto> d, r \<mapsto> PipeRead (pipes_made s), w \<mapsto> PipeWrite (pipes_made s))"
    and fr: "B r = None" "B w = None" "r \<noteq> rd" "w \<noteq> rd" "r \<noteq> w"
    and b: "born_of e bg s ch"
    and s4: "s4 = s\<lparr>fds := B(r \<mapsto> PipeRead (pipes_made s)),
            foreground := foreground s @ (if bg then [] else [pid]),
            pipes_made := Suc (pipes_made s),
            forks_made := Suc (forks_made s),
            log := log s @ stage_events bg rd pid ch\<rparr>"
    by blast
  have f4: "fds s4 = B(r \<mapsto> PipeRead (pipes_made s))" by (simp add: s4)
  from Cons.IH[OF rest f4 fr(1)] obtain stages where
    len: "length stages = Suc (length cs)"
    and w: "wired B r (PipeRead (pipes_made s)) (pipes_made s4) (c' # cs) (map snd stages)"
    and bs: "list_all (born_of e bg s4) (map snd stages)"
    and s': "s' = s4\<lparr>fds := B,
            foreground := foreground s4 @ (if bg then [] else map fst stages),
            pipes_made := pipes_made s4 + length cs,
            forks_made := forks_made s4 + Suc (length cs),
            log := log s4 @ chain_events bg r stages\<rparr>"
    by blast
  from len obtain st sts where st: "stages = st # sts" by (cases stages) auto
  have bo: "born_of e bg s4 = born_of e bg s"
    by (rule born_of_cong) (simp_all add: s4)
  have p4: "pipes_made s4 = Suc (pipes_made s)" by (simp add: s4)
  have "wired B rd d (pipes_made s) (c # c' # cs) (map snd ((pid, ch) # stages))"
    using w ch fr unfolding p4 st by simp
  moreover have "list_all (born_of e bg s) (map snd ((pid, ch) # stages))"
    using bs b unfolding bo by simp
  moreover have "s' = s\<lparr>fds := B,
            foreground := foreground s @ (if bg then [] else map fst ((pid, ch) # stages)),
            pipes_made := pipes_made s + length (c' # cs),
            forks_made := forks_made s + Suc (length (c' # cs)),
            log := log s @ chain_events bg rd ((pid, ch) # stages)\<rparr>"
    unfolding s' by (simp add: s4 ch(3))
  ultimately show ?case using len by (intro exI[of _ "(pid, ch) # stages"]) simp
qed


lemma sys_dup_ok:
  assumes "sys_dup e d s = (r, s1)" and "r \<noteq> - 1"
  shows "\<exists>x. fds s d = Some x \<and> fds s r = None \<and> s1 = logged (Dup d r) (s\<lparr>fds := (fds s)(r \<mapsto> x)\<rparr>)"
  using assms free_fd_SomeD[of e "fds s"]
  by (auto simp: sys_dup_def split: option.splits)

lemma general_path_Returned:
  assumes "general_path e c cs bg s = Returned u s'"
  shows "\<exists>r0 d0 stages.
     fds s STDIN_FILENO = Some d0 \<and> fds s r0 = None \<and> length stages = Suc (length cs) \<and>
     wired (fds s) r0 d0 (pipes_made s) (c # cs) (map snd stages) \<and>
     list_all (born_of e bg (s\<lparr>sigchld_blocked := True\<rparr>)) (map snd stages) \<and>
     (\<not> bg \<longrightarrow> list_all (child_exits e) (foreground s @ map fst stages)) \<and>
     s' = s\<lparr>sigchld_blocked := False,
            foreground := (if bg then foreground s else []),
            pipes_made := pipes_made s + length cs,
            forks_made := forks_made s + Suc (length cs),
            log := log s @ [Dup STDIN_FILENO r0, BlockChildSignal] @ chain_events bg r0 stages @
              (if bg then [] else [WaitForForegroundChildren (foreground s @ map fst stages)]) @
              [UnblockChildSignal]\<rparr>"
proof -
  obtain r0 s1 where sd: "sys_dup e STDIN_FILENO s = (r0, s1)" by (cases "sys_dup e STDIN_FILENO s") auto
  from assms sd have ok: "r0 \<noteq> - 1" by (auto simp: general_path_def split: if_splits)
  from sys_dup_ok[OF sd ok] obtain d0 where
    d0: "fds s STDIN_FILENO = Some d0" and fr: "fds s r0 = None"
    and s1: "s1 = logged (Dup STDIN_FILENO r0) (s\<lparr>fds := (fds s)(r0 \<mapsto> d0)\<rparr>)"
    by blast
  let ?s2 = "blockChildSignal s1"
  from assms sd ok obtain s3 where
    ls: "launch_stages e c cs r0 bg ?s2 = Returned () s3"
    and w: "and_then (if \<not> bg then waitForForegroundChildren e s3 else Returned () s3)
              (\<lambda>_ s4. Returned () (unblockChildSignal s4)) = Returned u s'"
    by (auto simp: general_path_def and_then_Returned)
  have f2: "fds ?s2 = (fds s)(r0 \<mapsto> d0)" by (simp add: s1 blockChildSignal_def logged_def)
  from launch_stages_Returned[OF ls f2 fr] obtain stages where
    len: "length stages = Suc (length cs)"
    and wi: "wired (fds s) r0 d0 (pipes_made ?s2) (c # cs) (map snd stages)"
    and bo: "list_all (born_of e bg ?s2) (map snd stages)"
    and s3: "s3 = ?s2\<lparr>fds := fds s,
            foreground := foreground ?s2 @ (if bg then [] else map fst stages),
            pipes_made := pipes_made ?s2 + length cs,
            forks_made := forks_made ?s2 + Suc (length cs),
            log := log ?s2 @ chain_events bg r0 stages\<rparr>"
    by blast
  have p2: "pipes_made ?s2 = pipes_made s" by (simp add: s1 blockChildSignal_def logged_def)
  have b2: "born_of e bg ?s2 = born_of e bg (s\<lparr>sigchld_blocked := True\<rparr>)"
    by (rule born_of_cong) (simp_all add: s1 blockChildSignal_def logged_def)
  have ex: "\<not> bg \<longrightarrow> list_all (child_exits e) (foreground s @ map fst stages)"
    using w unfolding s3
    by (auto simp: waitForForegroundChildren_def Let_def s1 blockChildSignal_def logged_def
        split: if_splits)
  have "s' = s\<lparr>sigchld_blocked := False,
            foreground := (if bg then foreground s else []),
            pipes_made := pipes_made s + length cs,
            forks_made := forks_made s + Suc (length cs),
            log := log s @ [Dup STDIN_FILENO r0, BlockChildSignal] @ chain_events bg r0 stages @
              (if bg then [] else [WaitForForegroundChildren (foreground s @ map fst stages)]) @
              [UnblockChildSignal]\<rparr>"
    using w unfolding s3
    by (cases bg)
       (auto simp: waitForForegroundChildren_def Let_def s1 blockChildSignal_def logged_def
        unblockChildSignal_def split: if_splits)
  then show ?thesis using d0 fr len wi bo ex unfolding p2 b2 by blast
qed


lemma forks_append: "forks (xs @ ys) = forks xs @ forks ys"
  by (induction xs rule: forks.induct) auto

lemma stage_events_digest:
  "forks (stage_events bg rd pid ch) = [(pid, ch)]"
  "filter is_dup (stage_events bg rd pid ch) = []"
  "filter is_block (stage_events bg rd pid ch) = []"
  "filter is_unblock (stage_events bg rd pid ch) = []"
  "filter is_wait (stage_events bg rd pid ch) = []"
  "length (filter is_pipe (stage_events bg rd pid ch)) = (if child_pipe_fds ch = None then 0 else 1)"
  by (auto simp: stage_events_def forks_append split: option.splits)

lemma chain_events_digest:
  "forks (chain_events bg rd stages) = stages"
  "filter is_dup (chain_events bg rd stages) = []"
  "filter is_block (chain_events bg rd stages) = []"
  "filter is_unblock (chain_events bg rd stages) = []"
  "filter is_wait (chain_events bg rd stages) = []"
  by (induction bg rd stages rule: chain_events.induct)
     (simp_all add: forks_append stage_events_digest)

lemma chain_events_pipes:
  "wired B rd d k cmds (map snd stages) \<Longrightarrow>
   length (filter is_pipe (chain_events bg rd stages)) = length cmds - 1"
proof (induction stages arbitrary: cmds rd d k)
  case Nil
  then show ?case by simp
next
  case (Cons st rest)
  obtain pid ch where st: "st = (pid, ch)" by (cases st)
  show ?case
  proof (cases rest)
    case Nil
    with Cons.prems st show ?thesis
      by (cases cmds; cases "tl cmds") (auto simp: stage_events_digest)
  next
    case (Cons st' rest')
    from Cons.prems st Cons obtain c c' cs where cm: "cmds = c # c' # cs"
      by (cases cmds; cases "tl cmds") auto
    from Cons.prems obtain r w where
      pf: "child_pipe_fds ch = Some (r, w)"
      and w: "wired B r (PipeRead k) (Suc k) (c' # cs) (map snd rest)"
      unfolding st cm Cons by (auto split: option.splits)
    from Cons.IH[OF w] show ?thesis
      by (simp add: st cm pf stage_events_digest)
  qed
qed


lemma new_events_Returned:
  "log s' = log s @ evs \<Longrightarrow> new_events s (Returned u s') = evs"
  by (simp add: new_events_def state_of_def)

text \<open>
  The side of the shell on the general path of \<^verbatim>\<open>runPipeline\<close>, for a pipeline
  of N commands that runs to its return: the calls of the shell are one
  \<^verbatim>\<open>dup\<close> of its standard input, made first, and then, stage by stage, the
  calls of the chain: a new pipe for every stage but the last (N - 1 pipes),
  the launch, and right after the launch the closing of the descriptors
  handed to the child. Stage 0 is handed the duplicate, every other stage the
  read end of the pipe of the stage before it; every stage but the last is
  handed its own pipe; there are N children. At the return the descriptor
  table of the shell is what it was. What a child makes of the descriptors
  it is handed is the matter of \<^verbatim>\<open>runCommand\<close>.
\<close>

lemma general_path_chain:
  assumes "general_path e c cs bg s = Returned u s'"
  shows "\<exists>r0 d0 stages tl.
     new_events s (Returned u s') =
       Dup STDIN_FILENO r0 # BlockChildSignal # chain_events bg r0 stages @ tl \<and>
     filter is_dup tl = [] \<and> filter is_pipe tl = [] \<and> forks tl = [] \<and>
     fds s STDIN_FILENO = Some d0 \<and>
     wired (fds s) r0 d0 (pipes_made s) (c # cs) (map snd stages) \<and>
     length (filter is_dup (new_events s (Returned u s'))) = 1 \<and>
     length (filter is_pipe (new_events s (Returned u s'))) = length (c # cs) - 1 \<and>
     forks (new_events s (Returned u s')) = stages \<and>
     length stages = length (c # cs) \<and>
     fds s' = fds s"
proof -
  from general_path_Returned[OF assms] obtain r0 d0 stages where
    d0: "fds s STDIN_FILENO = Some d0"
    and len: "length stages = Suc (length cs)"
    and wi: "wired (fds s) r0 d0 (pipes_made s) (c # cs) (map snd stages)"
    and s': "s' = s\<lparr>sigchld_blocked := False,
            foreground := (if bg then foreground s else []),
            pipes_made := pipes_made s + length cs,
            forks_made := forks_made s + Suc (length cs),
            log := log s @ [Dup STDIN_FILENO r0, BlockChildSignal] @ chain_events bg r0 stages @
              (if bg then [] else [WaitForForegroundChildren (foreground s @ map fst stages)]) @
              [UnblockChildSignal]\<rparr>"
    by blast
  let ?tl = "(if bg then [] else [WaitForForegroundChildren (foreground s @ map fst stages)]) @
              [UnblockChildSignal]"
  have ne: "new_events s (Returned u s') =
      Dup STDIN_FILENO r0 # BlockChildSignal # chain_events bg r0 stages @ ?tl"
    by (rule new_events_Returned) (simp add: s')
  have tl: "filter is_dup ?tl = []" "filter is_pipe ?tl = []" "forks ?tl = []" by auto
  have "length (filter is_dup (new_events s (Returned u s'))) = 1"
    unfolding ne using tl by (simp add: chain_events_digest)
  moreover have "length (filter is_pipe (new_events s (Returned u s'))) = length (c # cs) - 1"
    unfolding ne using tl chain_events_pipes[OF wi, of bg] by simp
  moreover have "forks (new_events s (Returned u s')) = stages"
    unfolding ne using tl by (simp add: forks_append chain_events_digest)
  moreover have "fds s' = fds s" by (simp add: s')
  ultimately show ?thesis using ne tl d0 wi len by (intro exI[of _ r0] exI[of _ d0] exI[of _ stages] exI[of _ ?tl]) simp
qed


lemma runCommand_parent:
  "fork_pid e (forks_made s) \<noteq> - 1 \<Longrightarrow> fork_pid e (forks_made s) \<noteq> 0 \<Longrightarrow>
   runCommand e com rd pf bg s =
     Returned ()
       (s\<lparr>foreground := foreground s @ (if bg then [] else [fork_pid e (forks_made s)]),
          forks_made := Suc (forks_made s),
          log := log s @
            [Fflush, Fork (fork_pid e (forks_made s)) (Some (fork_child e com rd pf bg (logged Fflush s)))] @
            (if bg then [] else [RegisterForegroundChild (fork_pid e (forks_made s))])\<rparr>)"
proof -
  have "\<exists>s'. runCommand e com rd pf bg s = Returned () s'"
    if "fork_pid e (forks_made s) \<noteq> - 1" "fork_pid e (forks_made s) \<noteq> 0"
    using that by (simp add: runCommand_def Let_def after_fork_def logged_def)
  then show "fork_pid e (forks_made s) \<noteq> - 1 \<Longrightarrow> fork_pid e (forks_made s) \<noteq> 0 \<Longrightarrow> ?thesis"
    using runCommand_Returned[of e com rd pf bg s "()"] by auto
qed

lemma env_simps:
  "EXEC_FAILURE ex_env = 127" "SYNTAX_ERROR_STR ex_env = ''Syntax error.''" "BUILTIN_ERROR ex_env = 2"
  "getBuiltin ex_env name = (if name = ''lecho'' then Some (\<lambda>argv. 0)
                            else if name = ''lcd'' then Some (\<lambda>argv. 2) else None)"
  "parseline ex_env = ex_parseline" "getLine ex_env = ex_getLine" "isatty_stdin ex_env = False"
  "OPEN_MAX ex_env = 8"
  "open_errno ex_env name oflags = (if name = ''missing'' \<and> O_CREAT \<notin> oflags then Some ENOENT
                                   else if name = ''dir'' then Some EISDIR else None)"
  "exec_errno ex_env name = (if name = ''nosuch'' then Some ENOENT else None)"
  "fork_pid ex_env k = 100 + int k" "child_exits ex_env pid = True"
  by (simp_all add: ex_env_def)

lemma upt8: "[0..<8] = [0, 1, 2, 3, 4, 5, 6, 7]"
  by (simp add: upt_rec)

lemmas parent_eval = general_path_def sys_dup_def sys_pipe_def sys_close_def free_fd_def
  closeFileDescriptor_def runCommand_parent blockChildSignal_def unblockChildSignal_def
  waitForForegroundChildren_def logged_def perror_def STDIN_FILENO_def env_simps upt8 Let_def

lemma ex_chain_returns:
  "\<exists>s'. general_path ex_env (cmd [''ls'']) [cmd [''wc'']] False ex_shell = Returned () s'"
  by (simp add: parent_eval ex_shell_def)

lemma general_path_chain_ls_wc:
  "\<exists>s'. general_path ex_env (cmd [''ls'']) [cmd [''wc'']] False ex_shell = Returned () s' \<and>
        length (filter is_dup (new_events ex_shell (Returned () s'))) = 1 \<and>
        length (filter is_pipe (new_events ex_shell (Returned () s'))) = 1 \<and>
        length (forks (new_events ex_shell (Returned () s'))) = 2 \<and>
        fds s' = fds ex_shell"
proof -
  from ex_chain_returns obtain s' where
    r: "general_path ex_env (cmd [''ls'']) [cmd [''wc'']] False ex_shell = Returned () s'"
    by blast
  from general_path_chain[OF r] show ?thesis using r by auto
qed


lemma and_then_Blocked:
  "and_then m f = Blocked s' \<longleftrightarrow> m = Blocked s' \<or> (\<exists>x s1. m = Returned x s1 \<and> f x s1 = Blocked s')"
  by (cases m) auto

lemma closeFileDescriptor_not_Blocked: "closeFileDescriptor d s \<noteq> Blocked s'"
  by (auto simp: closeFileDescriptor_def sys_close_def split: option.splits)

lemma moveFileDescriptor_not_Blocked: "moveFileDescriptor e a b s \<noteq> Blocked s'"
  by (auto simp: moveFileDescriptor_def sys_dup2_def closeFileDescriptor_not_Blocked
      split: option.splits prod.splits if_splits)

lemma openFile_not_Blocked: "openFile e name fl m s \<noteq> Blocked s'"
  by (auto simp: openFile_def sys_open_def split: option.splits prod.splits if_splits)

lemma addRedirs_not_Blocked: "addRedirs e r s \<noteq> Blocked s'"
  by (auto simp: addRedirs_def Let_def and_then_Blocked openFile_not_Blocked
      moveFileDescriptor_not_Blocked)

lemma add_all_redirs_not_Blocked: "add_all_redirs e rs s \<noteq> Blocked s'"
  by (induction rs arbitrary: s) (auto simp: and_then_Blocked addRedirs_not_Blocked)

lemma exec_command_not_Blocked: "exec_command e c s \<noteq> Blocked s'"
  by (auto simp: exec_command_def Let_def split: option.splits)

lemma after_fork_not_Blocked: "after_fork e pid com rd pf bg s \<noteq> Blocked s'"
  by (auto simp: after_fork_def Let_def and_then_Blocked moveFileDescriptor_not_Blocked
      closeFileDescriptor_not_Blocked add_all_redirs_not_Blocked exec_command_not_Blocked
      split: option.splits)

lemma runCommand_not_Blocked: "runCommand e com rd pf bg s \<noteq> Blocked s'"
  by (simp add: runCommand_def Let_def after_fork_not_Blocked)

lemma launch_stages_not_Blocked: "launch_stages e c cs rd bg s \<noteq> Blocked s'"
  by (induction cs arbitrary: c rd s)
     (auto simp: and_then_Blocked runCommand_not_Blocked closeFileDescriptor_not_Blocked
      split: prod.splits)

lemma general_path_Blocked:
  assumes "general_path e c cs bg s = Blocked s'"
  shows "\<not> bg \<and> (\<exists>r0 stages.
     length stages = Suc (length cs) \<and>
     \<not> list_all (child_exits e) (foreground s @ map fst stages) \<and>
     s' = s\<lparr>sigchld_blocked := True,
            foreground := foreground s @ map fst stages,
            pipes_made := pipes_made s + length cs,
            forks_made := forks_made s + Suc (length cs),
            log := log s @ [Dup STDIN_FILENO r0, BlockChildSignal] @ chain_events bg r0 stages @
              [WaitForForegroundChildren (foreground s @ map fst stages)]\<rparr>)"
proof -
  obtain r0 s1 where sd: "sys_dup e STDIN_FILENO s = (r0, s1)" by (cases "sys_dup e STDIN_FILENO s") auto
  from assms sd have ok: "r0 \<noteq> - 1" by (auto simp: general_path_def split: if_splits)
  from sys_dup_ok[OF sd ok] obtain d0 where
    d0: "fds s STDIN_FILENO = Some d0" and fr: "fds s r0 = None"
    and s1: "s1 = logged (Dup STDIN_FILENO r0) (s\<lparr>fds := (fds s)(r0 \<mapsto> d0)\<rparr>)"
    by blast
  let ?s2 = "blockChildSignal s1"
  from assms sd ok obtain s3 where
    ls: "launch_stages e c cs r0 bg ?s2 = Returned () s3"
    and w: "and_then (if \<not> bg then waitForForegroundChildren e s3 else Returned () s3)
              (\<lambda>_ s4. Returned () (unblockChildSignal s4)) = Blocked s'"
    by (auto simp: general_path_def and_then_Blocked launch_stages_not_Blocked)
  have f2: "fds ?s2 = (fds s)(r0 \<mapsto> d0)" by (simp add: s1 blockChildSignal_def logged_def)
  from launch_stages_Returned[OF ls f2 fr] obtain stages where
    len: "length stages = Suc (length cs)"
    and s3: "s3 = ?s2\<lparr>fds := fds s,
            foreground := foreground ?s2 @ (if bg then [] else map fst stages),
            pipes_made := pipes_made ?s2 + length cs,
            forks_made := forks_made ?s2 + Suc (length cs),
            log := log ?s2 @ chain_events bg r0 stages\<rparr>"
    by blast
  from w have nb: "\<not> bg" by (auto split: if_splits)
  from w nb have "\<not> list_all (child_exits e) (foreground s @ map fst stages) \<and>
     s' = s\<lparr>sigchld_blocked := True,
            foreground := foreground s @ map fst stages,
            pipes_made := pipes_made s + length cs,
            forks_made := forks_made s + Suc (length cs),
            log := log s @ [Dup STDIN_FILENO r0, BlockChildSignal] @ chain_events bg r0 stages @
              [WaitForForegroundChildren (foreground s @ map fst stages)]\<rparr>"
    unfolding s3
    by (auto simp: waitForForegroundChildren_def Let_def s1 blockChildSignal_def logged_def
        split: if_splits)
  then show ?thesis using nb len by blast
qed

lemma new_events_Blocked:
  "log s' = log s @ evs \<Longrightarrow> new_events s (Blocked s' :: (unit, shell) outcome) = evs"
  by (simp add: new_events_def state_of_def)

lemma born_of_blocked:
  "list_all (born_of e bg (s\<lparr>sigchld_blocked := True\<rparr>)) chs \<Longrightarrow>
   list_all (\<lambda>ch. sigchld_blocked (child_image ch)) chs"
  by (induction chs) (auto simp: born_of_def)

text \<open>
  C4. On the general path, delivery of the termination notification is
  blocked before the first launch and stays blocked over all launches and
  registrations: the calls of a run that returns are the \<^verbatim>\<open>dup\<close>, the
  blocking, the whole chain, for a foreground pipeline the wait, and last the
  unblocking; a background pipeline has no wait between its last launch and
  the unblocking. Every child is born with the notification blocked. When
  the wait of a foreground pipeline never returns, the notification is never
  unblocked.
\<close>

theorem C4_notification_blocked:
  "(general_path e c cs bg s = Returned u s' \<longrightarrow>
      (\<exists>r0 stages.
         new_events s (Returned u s') =
           [Dup STDIN_FILENO r0, BlockChildSignal] @ chain_events bg r0 stages @
           (if bg then [] else [WaitForForegroundChildren (foreground s @ map fst stages)]) @
           [UnblockChildSignal] \<and>
         forks (chain_events bg r0 stages) = stages \<and> length stages = length (c # cs) \<and>
         filter is_block (chain_events bg r0 stages) = [] \<and>
         filter is_unblock (chain_events bg r0 stages) = [] \<and>
         filter is_wait (chain_events bg r0 stages) = [] \<and>
         list_all (\<lambda>ch. sigchld_blocked (child_image ch)) (map snd stages) \<and>
         \<not> sigchld_blocked s')) \<and>
   (general_path e c cs bg s = Blocked s' \<longrightarrow>
      \<not> bg \<and> sigchld_blocked s' \<and>
      (\<exists>r0 stages.
         new_events s (Blocked s' :: (unit, shell) outcome) =
           [Dup STDIN_FILENO r0, BlockChildSignal] @ chain_events bg r0 stages @
           [WaitForForegroundChildren (foreground s @ map fst stages)] \<and>
         filter is_unblock (chain_events bg r0 stages) = []))"
proof (intro conjI impI)
  assume r: "general_path e c cs bg s = Returned u s'"
  from general_path_Returned[OF r] obtain r0 d0 stages where
    len: "length stages = Suc (length cs)"
    and bo: "list_all (born_of e bg (s\<lparr>sigchld_blocked := True\<rparr>)) (map snd stages)"
    and s': "s' = s\<lparr>sigchld_blocked := False,
            foreground := (if bg then foreground s else []),
            pipes_made := pipes_made s + length cs,
            forks_made := forks_made s + Suc (length cs),
            log := log s @ [Dup STDIN_FILENO r0, BlockChildSignal] @ chain_events bg r0 stages @
              (if bg then [] else [WaitForForegroundChildren (foreground s @ map fst stages)]) @
              [UnblockChildSignal]\<rparr>"
    by blast
  have ne: "new_events s (Returned u s') =
      [Dup STDIN_FILENO r0, BlockChildSignal] @ chain_events bg r0 stages @
      (if bg then [] else [WaitForForegroundChildren (foreground s @ map fst stages)]) @
      [UnblockChildSignal]"
    by (rule new_events_Returned) (simp add: s')
  have "\<not> sigchld_blocked s'" by (simp add: s')
  then show "\<exists>r0 stages.
         new_events s (Returned u s') =
           [Dup STDIN_FILENO r0, BlockChildSignal] @ chain_events bg r0 stages @
           (if bg then [] else [WaitForForegroundChildren (foreground s @ map fst stages)]) @
           [UnblockChildSignal] \<and>
         forks (chain_events bg r0 stages) = stages \<and> length stages = length (c # cs) \<and>
         filter is_block (chain_events bg r0 stages) = [] \<and>
         filter is_unblock (chain_events bg r0 stages) = [] \<and>
         filter is_wait (chain_events bg r0 stages) = [] \<and>
         list_all (\<lambda>ch. sigchld_blocked (child_image ch)) (map snd stages) \<and>
         \<not> sigchld_blocked s'"
    using ne len born_of_blocked[OF bo]
    by (intro exI[of _ r0] exI[of _ stages]) (simp add: chain_events_digest)
next
  assume b: "general_path e c cs bg s = Blocked s'"
  from general_path_Blocked[OF b] obtain r0 stages where
    nb: "\<not> bg"
    and s': "s' = s\<lparr>sigchld_blocked := True,
            foreground := foreground s @ map fst stages,
            pipes_made := pipes_made s + length cs,
            forks_made := forks_made s + Suc (length cs),
            log := log s @ [Dup STDIN_FILENO r0, BlockChildSignal] @ chain_events bg r0 stages @
              [WaitForForegroundChildren (foreground s @ map fst stages)]\<rparr>"
    by blast
  show "\<not> bg" by (rule nb)
  show "sigchld_blocked s'" by (simp add: s')
  have ne: "new_events s (Blocked s' :: (unit, shell) outcome) =
      [Dup STDIN_FILENO r0, BlockChildSignal] @ chain_events bg r0 stages @
      [WaitForForegroundChildren (foreground s @ map fst stages)]"
    by (rule new_events_Blocked) (simp add: s')
  then show "\<exists>r0 stages.
         new_events s (Blocked s' :: (unit, shell) outcome) =
           [Dup STDIN_FILENO r0, BlockChildSignal] @ chain_events bg r0 stages @
           [WaitForForegroundChildren (foreground s @ map fst stages)] \<and>
         filter is_unblock (chain_events bg r0 stages) = []"
    by (intro exI[of _ r0] exI[of _ stages]) (simp add: chain_events_digest)
qed


lemma ex_chain_blocks:
  "\<exists>s'. general_path (ex_env\<lparr>child_exits := \<lambda>pid. False\<rparr>) (cmd [''ls'']) [cmd [''wc'']] False ex_shell =
     Blocked s'"
  by (simp add: parent_eval ex_shell_def)

theorem C4_witness_ls_wc:
  "(\<exists>s'. general_path ex_env (cmd [''ls'']) [cmd [''wc'']] False ex_shell = Returned () s' \<and>
         length (filter is_block (new_events ex_shell (Returned () s'))) = 1 \<and>
         last (new_events ex_shell (Returned () s')) = UnblockChildSignal \<and>
         \<not> sigchld_blocked s') \<and>
   (\<exists>s'. general_path (ex_env\<lparr>child_exits := \<lambda>pid. False\<rparr>) (cmd [''ls'']) [cmd [''wc'']] False
           ex_shell = Blocked s' \<and>
         filter is_unblock (new_events ex_shell (Blocked s' :: (unit, shell) outcome)) = [] \<and>
         sigchld_blocked s')"
proof -
  from ex_chain_returns obtain s1 where
    r: "general_path ex_env (cmd [''ls'']) [cmd [''wc'']] False ex_shell = Returned () s1"
    by blast
  from ex_chain_blocks obtain s2 where
    b: "general_path (ex_env\<lparr>child_exits := \<lambda>pid. False\<rparr>) (cmd [''ls'']) [cmd [''wc'']] False
          ex_shell = Blocked s2"
    by blast
  have 1: "length (filter is_block (new_events ex_shell (Returned () s1))) = 1 \<and>
         last (new_events ex_shell (Returned () s1)) = UnblockChildSignal \<and>
         \<not> sigchld_blocked s1"
    using C4_notification_blocked[of ex_env "cmd [''ls'']" "[cmd [''wc'']]" False ex_shell "()" s1] r
    by auto
  have 2: "filter is_unblock (new_events ex_shell (Blocked s2 :: (unit, shell) outcome)) = [] \<and> sigchld_blocked s2"
    using C4_notification_blocked[of "ex_env\<lparr>child_exits := \<lambda>pid. False\<rparr>" "cmd [''ls'']"
        "[cmd [''wc'']]" False ex_shell "()" s2] b
    by clarsimp
  show ?thesis using r b 1 2 by blast
qed


section \<open>The run of a child\<close>

lemma fd_run_Returned_refl: "fd_run e s (Returned x s)"
  by (simp add: fd_run_def same_but_fds_def state_of_def)

lemma fd_run_Faulted_refl: "fd_run e s (Faulted s)"
  by (simp add: fd_run_def same_but_fds_def state_of_def)

lemma same_but_fds_trans: "same_but_fds s s1 \<Longrightarrow> same_but_fds s1 s2 \<Longrightarrow> same_but_fds s s2"
  by (simp add: same_but_fds_def)

lemma fd_run_and_then:
  assumes "fd_run e s m" and "\<And>x s1. m = Returned x s1 \<Longrightarrow> fd_run e s1 (f x s1)"
  shows "fd_run e s (and_then m f)"
proof (cases m)
  case (Returned x s1)
  from assms(1) Returned obtain evs1 where
    l1: "log s1 = log s @ evs1" "list_all quiet evs1" and sb: "same_but_fds s s1"
    by (auto simp: fd_run_def state_of_def)
  have f: "fd_run e s1 (f x s1)" using assms(2) Returned by simp
  then have sb2: "same_but_fds s (state_of (f x s1))"
    using sb same_but_fds_trans by (auto simp: fd_run_def)
  show ?thesis
  proof (cases "f x s1")
    case (Exited n s')
    with f obtain evs call msg where
      "log s' = log s1 @ evs @ [call, msg]" "list_all quiet evs" "reports e call msg n"
      by (auto simp: fd_run_def)
    then have "log s' = log s @ (evs1 @ evs) @ [call, msg] \<and> list_all quiet (evs1 @ evs) \<and>
        reports e call msg n"
      using l1 by simp
    then show ?thesis using Returned Exited sb2 unfolding fd_run_def by (simp del: append_assoc; blast)
  next
    case (Blocked s')
    with f show ?thesis by (simp add: fd_run_def)
  next
    case (Returned y s')
    with f obtain evs where "log s' = log s1 @ evs" "list_all quiet evs"
      by (auto simp: fd_run_def state_of_def)
    then have "log s' = log s @ (evs1 @ evs) \<and> list_all quiet (evs1 @ evs)" using l1 by simp
    then show ?thesis using \<open>m = Returned x s1\<close> Returned sb2 unfolding fd_run_def
      by (simp add: state_of_def del: append_assoc; blast)
  next
    case (Execed p av s')
    with f obtain evs where "log s' = log s1 @ evs" "list_all quiet evs"
      by (auto simp: fd_run_def state_of_def)
    then have "log s' = log s @ (evs1 @ evs) \<and> list_all quiet (evs1 @ evs)" using l1 by simp
    then show ?thesis using Returned Execed sb2 unfolding fd_run_def
      by (simp add: state_of_def del: append_assoc; blast)
  next
    case (Faulted s')
    with f obtain evs where "log s' = log s1 @ evs" "list_all quiet evs"
      by (auto simp: fd_run_def state_of_def)
    then have "log s' = log s @ (evs1 @ evs) \<and> list_all quiet (evs1 @ evs)" using l1 by simp
    then show ?thesis using Returned Faulted sb2 unfolding fd_run_def
      by (simp add: state_of_def del: append_assoc; blast)
  qed
qed (use assms(1) in \<open>auto simp: fd_run_def state_of_def\<close>)

lemma fd_run_closeFileDescriptor: "fd_run e s (closeFileDescriptor d s)"
  unfolding fd_run_def closeFileDescriptor_def sys_close_def
  by (cases "fds s d")
     (auto simp: same_but_fds_def state_of_def logged_def perror_def quiet_def
       intro: exI[of _ "[]"])

lemma fd_run_moveFileDescriptor: "fd_run e s (moveFileDescriptor e a b s)"
proof (cases "a = b")
  case True
  then show ?thesis by (simp add: moveFileDescriptor_def fd_run_Returned_refl)
next
  case False
  show ?thesis
  proof (cases "sys_dup2 e a b s")
    case (Pair r s1)
    show ?thesis
    proof (cases "r = - 1")
      case True
      then have "s1 = logged (Dup2 a b (- 1)) s"
        using Pair by (auto simp: sys_dup2_def split: option.splits if_splits)
      then show ?thesis using False Pair True
        by (auto simp: moveFileDescriptor_def fd_run_def same_but_fds_def state_of_def
            logged_def perror_def intro: exI[of _ "[]"])
    next
      case ok: False
      then have s1: "s1 = logged (Dup2 a b b) (s\<lparr>fds := (fds s)(b := fds s a)\<rparr>)"
        using Pair by (auto simp: sys_dup2_def split: option.splits if_splits)
      have 1: "fd_run e s (Returned () s1 :: (unit, 'a proc) outcome)"
        using ok Pair unfolding s1
        by (auto simp: fd_run_def same_but_fds_def state_of_def logged_def quiet_def
            sys_dup2_def split: option.splits if_splits)
      have "fd_run e s (and_then (Returned () s1) (\<lambda>_. closeFileDescriptor a))"
        by (rule fd_run_and_then[OF 1]) (simp add: fd_run_closeFileDescriptor)
      then show ?thesis using False Pair ok by (simp add: moveFileDescriptor_def)
    qed
  qed
qed

lemma fd_run_openFile: "fd_run e s (openFile e name fl m s)"
  unfolding fd_run_def openFile_def sys_open_def
  by (auto simp: same_but_fds_def state_of_def logged_def perror_def fprintf_stderr_def quiet_def
      split: option.splits errno.splits intro: exI[of _ "[]"] dest: free_fd_SomeD)


lemma fd_run_addRedirs: "fd_run e s (addRedirs e r s)"
  unfolding addRedirs_def Let_def
  by (auto intro!: fd_run_and_then fd_run_openFile fd_run_moveFileDescriptor fd_run_Returned_refl)

lemma fd_run_add_all_redirs: "fd_run e s (add_all_redirs e rs s)"
  by (induction rs arbitrary: s)
     (auto intro!: fd_run_and_then fd_run_addRedirs fd_run_Returned_refl)

lemma fd_run_exec_command: "fd_run e s (exec_command e c s)"
  unfolding fd_run_def exec_command_def Let_def
  by (auto simp: same_but_fds_def state_of_def logged_def fprintf_stderr_def quiet_def
      split: option.splits errno.splits intro: exI[of _ "[]"])

lemma child_fd_run: "fd_run e (child_setup bg s) (after_fork e 0 com rd pf bg s)"
proof -
  let ?s1 = "if bg then sys_setsid s else s"
  let ?s2 = "unblockChildSignal ?s1"
  let ?s3 = "snd (sys_sigaction SIGINT (default_sigint_action ?s2) ?s2)"
  let ?s4 = "snd (sys_sigaction SIGCHLD (default_sigchld_action ?s3) ?s3)"
  have s4: "?s4 = child_setup bg s"
    by (simp add: child_setup_def sys_setsid_def unblockChildSignal_def sys_sigaction_def
        logged_def)
  have "fd_run e ?s4 (and_then (moveFileDescriptor e rd STDIN_FILENO ?s4) (\<lambda>_ s5.
        and_then
          (case pf of
             None \<Rightarrow> Returned () s5
           | Some (p0, p1) \<Rightarrow>
               and_then (moveFileDescriptor e p1 STDOUT_FILENO s5)
                 (\<lambda>_. closeFileDescriptor p0)) (\<lambda>_ s6.
        (case com of
           None \<Rightarrow> Faulted s6
         | Some c \<Rightarrow> and_then (add_all_redirs e (redirs c) s6) (\<lambda>_. exec_command e c)))))"
    apply (rule fd_run_and_then[OF fd_run_moveFileDescriptor])
    apply (rule fd_run_and_then)
     apply (auto split: option.splits
        intro!: fd_run_and_then fd_run_moveFileDescriptor fd_run_closeFileDescriptor
          fd_run_add_all_redirs fd_run_exec_command fd_run_Returned_refl)[1]
    apply (auto split: option.splits
        intro!: fd_run_and_then fd_run_add_all_redirs fd_run_exec_command fd_run_Faulted_refl)
    done
  then show ?thesis unfolding s4[symmetric] by (simp add: after_fork_def Let_def)
qed


section \<open>Redirections\<close>


lemma new_events_logged:
  "log s' = log s @ evs \<Longrightarrow> new_events s (Returned u s') = evs"
  by (simp add: new_events_def state_of_def)

lemma free_fd_range: "free_fd e T = Some n \<Longrightarrow> 0 \<le> n \<and> n < int (OPEN_MAX e)"
  unfolding free_fd_def by (auto simp: find_Some_iff)






















section \<open>Failures, signals and the read-execute loop\<close>

lemmas child_eval = after_fork_def moveFileDescriptor_def closeFileDescriptor_def openFile_def
  addRedirs_def exec_command_def getArgVector_def sys_dup2_def sys_close_def sys_open_def
  sys_setsid_def sys_sigaction_def unblockChildSignal_def fprintf_stderr_def perror_def
  logged_def free_fd_def IS_RIN_def IS_ROUT_def IS_RAPPEND_def STDIN_FILENO_def
  STDOUT_FILENO_def EXIT_FAILURE_def env_simps upt8 Let_def child_of_def

lemma ex_child_dir_diag:
  "filter is_diag (log (state_of (after_fork ex_env 0 (Some cat_to_dir) 3 None False ex_child))) =
     [Perror ''open() failed'']"
  by (simp add: child_eval ex_child_def cat_to_dir_def ex_shell_def cmd_def state_of_def)

theorem C5_counterexample_two_statuses:
  "exit_status (after_fork ex_env 0 (Some cat_to_dir) 3 None False ex_child) = Some 1 \<and>
   filter is_diag (log (state_of (after_fork ex_env 0 (Some cat_to_dir) 3 None False ex_child))) =
     [Perror ''open() failed''] \<and>
   exit_status (after_fork ex_env 0 (cmd [''nosuch'']) 3 None False ex_child) = Some 127 \<and>
   exit_status (after_fork ex_env 0 (Some cat_to_dir) 3 None False ex_child) \<noteq>
     exit_status (after_fork ex_env 0 (cmd [''nosuch'']) 3 None False ex_child)"
  by (simp add: child_eval ex_child_def cat_to_dir_def ex_shell_def cmd_def state_of_def)

lemma quiet_fd_event: "list_all quiet evs \<Longrightarrow> list_all fd_event evs"
  by (induction evs) (auto simp: quiet_def)

lemma reports_fd_event: "reports e call msg n \<Longrightarrow> fd_event call \<and> fd_event msg \<and> failed call \<and> is_diag msg"
  by (cases call) (auto split: option.splits errno.splits)

text \<open>
  C5, as the code has it. A child never returns from \<^verbatim>\<open>runCommand\<close> and never
  waits: it executes the program, exits, or is killed at a \<^verbatim>\<open>NULL\<close> pointer.
  When it exits, exactly one call has failed, it is the last call but for
  the one diagnostic that follows it, and nothing is done after the
  diagnostic; the status is \<^verbatim>\<open>EXIT_FAILURE\<close> for a failed \<^verbatim>\<open>close\<close>, \<^verbatim>\<open>dup2\<close> or
  \<^verbatim>\<open>open\<close> and \<^verbatim>\<open>EXEC_FAILURE\<close> for a failed \<^verbatim>\<open>execvp\<close>; the diagnostic names the
  file for an \<^verbatim>\<open>open\<close> that failed with \<^verbatim>\<open>ENOENT\<close> or \<^verbatim>\<open>EACCES\<close> and the program
  for a failed \<^verbatim>\<open>execvp\<close>, and the failed call otherwise. When it does not
  exit, no call has failed and nothing has been printed. In the parent,
  \<^verbatim>\<open>runCommand\<close> returns whatever happens in the child.
\<close>

theorem C5_child_failure:
  "(after_fork e 0 com rd pf bg s = Exited n s' \<longrightarrow>
      (\<exists>evs call msg. log s' = log (child_setup bg s) @ evs @ [call, msg] \<and>
         list_all quiet evs \<and> reports e call msg n)) \<and>
   (after_fork e 0 com rd pf bg s = Execed p av s' \<or> after_fork e 0 com rd pf bg s = Faulted s' \<longrightarrow>
      (\<exists>evs. log s' = log (child_setup bg s) @ evs \<and> list_all quiet evs)) \<and>
   after_fork e 0 com rd pf bg s \<noteq> Returned u s' \<and>
   after_fork e 0 com rd pf bg s \<noteq> Blocked s' \<and>
   (fork_pid e (forks_made t) \<noteq> - 1 \<and> fork_pid e (forks_made t) \<noteq> 0 \<longrightarrow>
      (\<exists>t'. runCommand e com rd pf bg t = Returned () t' \<and> fds t' = fds t))"
proof -
  have f: "fd_run e (child_setup bg s) (after_fork e 0 com rd pf bg s)" by (rule child_fd_run)
  have 1: "after_fork e 0 com rd pf bg s = Exited n s' \<longrightarrow>
      (\<exists>evs call msg. log s' = log (child_setup bg s) @ evs @ [call, msg] \<and>
         list_all quiet evs \<and> reports e call msg n)"
    using f by (auto simp: fd_run_def)
  have 2: "after_fork e 0 com rd pf bg s = Execed p av s' \<or> after_fork e 0 com rd pf bg s = Faulted s' \<longrightarrow>
      (\<exists>evs. log s' = log (child_setup bg s) @ evs \<and> list_all quiet evs)"
    using f by (auto simp: fd_run_def state_of_def)
  have 3: "fork_pid e (forks_made t) \<noteq> - 1 \<and> fork_pid e (forks_made t) \<noteq> 0 \<longrightarrow>
      (\<exists>t'. runCommand e com rd pf bg t = Returned () t' \<and> fds t' = fds t)"
    by (auto simp: runCommand_parent)
  show ?thesis
    using 1 2 3 child_not_Returned[of e com rd pf bg s u s']
      after_fork_not_Blocked[of e 0 com rd pf bg s s']
    by blast
qed

theorem C5_witness_children:
  "(\<exists>s'. after_fork ex_env 0 (Some cat_to_dir) 3 None False ex_child = Exited EXIT_FAILURE s' \<and>
         filter is_diag (log s') = [Perror ''open() failed'']) \<and>
   (\<exists>s'. after_fork ex_env 0 (cmd [''ls'']) 3 None False ex_child = Execed ''ls'' [''ls''] s' \<and>
         filter is_diag (log s') = []) \<and>
   (\<exists>t'. runCommand ex_env (Some cat_to_dir) 3 None False ex_shell = Returned () t' \<and>
         fds t' = fds ex_shell)"
proof -
  have a: "\<exists>s'. after_fork ex_env 0 (Some cat_to_dir) 3 None False ex_child = Exited EXIT_FAILURE s'"
    by (simp add: child_eval ex_child_def cat_to_dir_def ex_shell_def)
  have b: "\<exists>s'. after_fork ex_env 0 (cmd [''ls'']) 3 None False ex_child = Execed ''ls'' [''ls''] s'"
    by (simp add: child_eval ex_child_def cmd_def ex_shell_def)
  have c: "fork_pid ex_env (forks_made ex_shell) \<noteq> - 1 \<and> fork_pid ex_env (forks_made ex_shell) \<noteq> 0"
    by (simp add: env_simps)
  have l: "log (child_setup False ex_child) =
      [UnblockChildSignal, Sigaction SIGINT dfl_action, Sigaction SIGCHLD dfl_action]"
    by (simp add: child_setup_def ex_child_def child_of_def ex_shell_def)
  from a obtain s1 where
    s1: "after_fork ex_env 0 (Some cat_to_dir) 3 None False ex_child = Exited EXIT_FAILURE s1"
    by blast
  from b obtain s2 where
    s2: "after_fork ex_env 0 (cmd [''ls'']) 3 None False ex_child = Execed ''ls'' [''ls''] s2"
    by blast
  from C5_child_failure[of ex_env "Some cat_to_dir" 3 None False ex_child EXIT_FAILURE s1] s1
  obtain evs call msg where
    r: "log s1 = log (child_setup False ex_child) @ evs @ [call, msg]" "list_all quiet evs"
       "reports ex_env call msg EXIT_FAILURE"
    by blast
  have d1: "filter is_diag (log s1) = [msg]"
    using r reports_fd_event[OF r(3)] unfolding l
    by (cases call) (auto simp: filter_empty_conv list_all_iff quiet_def)
  have "msg = Perror ''open() failed''"
    using ex_child_dir_diag d1 s1 by (simp add: state_of_def)
  from C5_child_failure[of ex_env "cmd [''ls'']" 3 None False ex_child _ s2 "''ls''" "[''ls'']"] s2
  obtain evs2 where
    r2: "log s2 = log (child_setup False ex_child) @ evs2" "list_all quiet evs2"
    by blast
  have d2: "filter is_diag (log s2) = []"
    using r2 unfolding l by (auto simp: filter_empty_conv list_all_iff quiet_def)
  from C5_child_failure[of ex_env _ _ _ _ _ _ _ _ _ _ ex_shell] c
  have p: "\<exists>t'. runCommand ex_env (Some cat_to_dir) 3 None False ex_shell = Returned () t' \<and>
         fds t' = fds ex_shell"
    by blast
  show ?thesis using s1 d1 \<open>msg = Perror ''open() failed''\<close> s2 d2 p by auto
qed

lemma child_signal_state:
  "sigint_disp (state_of (after_fork e 0 com rd pf bg s)) = default_sigint_action s \<and>
   sigchld_disp (state_of (after_fork e 0 com rd pf bg s)) = default_sigchld_action s \<and>
   \<not> sigchld_blocked (state_of (after_fork e 0 com rd pf bg s)) \<and>
   own_session (state_of (after_fork e 0 com rd pf bg s)) = (bg \<or> own_session s)"
  using child_fd_run[of e bg s com rd pf]
  by (simp add: fd_run_def same_but_fds_def child_setup_def)

lemma child_log:
  "\<exists>evs. log (state_of (after_fork e 0 com rd pf bg s)) =
           log s @ (if bg then [Setsid] else []) @
           [UnblockChildSignal, Sigaction SIGINT (default_sigint_action s),
            Sigaction SIGCHLD (default_sigchld_action s)] @ evs \<and>
         list_all fd_event evs"
proof (cases "after_fork e 0 com rd pf bg s")
  case (Exited n s')
  with child_fd_run[of e bg s com rd pf] obtain evs call msg where
    "log s' = log (child_setup bg s) @ evs @ [call, msg]" "list_all quiet evs" "reports e call msg n"
    by (auto simp: fd_run_def)
  then have "log s' = log (child_setup bg s) @ (evs @ [call, msg]) \<and> list_all fd_event (evs @ [call, msg])"
    using quiet_fd_event[of evs] reports_fd_event[of e call msg n] by simp
  then show ?thesis using Exited by (auto simp: state_of_def child_setup_def)
next
  case (Returned x s')
  then show ?thesis using child_not_Returned by blast
next
  case (Blocked s')
  then show ?thesis using after_fork_not_Blocked by blast
next
  case (Execed p av s')
  with child_fd_run[of e bg s com rd pf] obtain evs where
    "log s' = log (child_setup bg s) @ evs" "list_all quiet evs"
    by (auto simp: fd_run_def state_of_def)
  then show ?thesis using Execed quiet_fd_event by (auto simp: state_of_def child_setup_def)
next
  case (Faulted s')
  with child_fd_run[of e bg s com rd pf] obtain evs where
    "log s' = log (child_setup bg s) @ evs" "list_all quiet evs"
    by (auto simp: fd_run_def state_of_def)
  then show ?thesis using Faulted quiet_fd_event by (auto simp: state_of_def child_setup_def)
qed

lemma logged_simps:
  "fds (logged ev s) = fds s" "forks_made (logged ev s) = forks_made s"
  "pipes_made (logged ev s) = pipes_made s" "foreground (logged ev s) = foreground s"
  "lines_read (logged ev s) = lines_read s" "log (logged ev s) = log s @ [ev]"
  by (simp_all add: logged_def)

lemma shell_inv_simps:
  "shell_inv J (s\<lparr>fds := x1\<rparr>) = shell_inv J s"
  "shell_inv J (s\<lparr>foreground := x2\<rparr>) = shell_inv J s"
  "shell_inv J (s\<lparr>pipes_made := x3\<rparr>) = shell_inv J s"
  "shell_inv J (s\<lparr>forks_made := x4\<rparr>) = shell_inv J s"
  "shell_inv J (s\<lparr>lines_read := x5\<rparr>) = shell_inv J s"
  "shell_inv J (s\<lparr>sigchld_blocked := x6\<rparr>) = shell_inv J s"
  by (simp_all add: shell_inv_def split: prod.splits)

lemma shell_inv_upd:
  "shell_inv J s \<Longrightarrow> sigint_disp t = sigint_disp s \<Longrightarrow>
   default_sigint_action t = default_sigint_action s \<Longrightarrow>
   default_sigchld_action t = default_sigchld_action s \<Longrightarrow>
   list_all (good_child J) (map snd (forks evs)) \<Longrightarrow>
   shell_inv J (t\<lparr>log := log s @ evs\<rparr>)"
  by (auto simp: shell_inv_def forks_append split: prod.splits)

lemma shell_inv_logged:
  "shell_inv J s \<Longrightarrow> forks [ev] = [] \<Longrightarrow> shell_inv J (logged ev s)"
  unfolding logged_def by (rule shell_inv_upd) simp_all

lemma pok_Returned: "pok J (Returned x s) = shell_inv J s"
  by (simp add: pok_def state_of_def)

lemma pok_and_then:
  assumes "pok J m" and "\<And>x s1. m = Returned x s1 \<Longrightarrow> shell_inv J s1 \<Longrightarrow> pok J (f x s1)"
  shows "pok J (and_then m f)"
proof (cases m)
  case (Returned x s1)
  then show ?thesis using assms by (simp add: pok_Returned)
qed (use assms(1) in \<open>auto simp: pok_def state_of_def\<close>)

lemma pok_closeFileDescriptor: "shell_inv J s \<Longrightarrow> pok J (closeFileDescriptor d s)"
  by (auto simp: closeFileDescriptor_def sys_close_def pok_def state_of_def perror_def logged_def
      split: option.splits intro!: shell_inv_upd)

lemma good_fork_child:
  assumes "shell_inv J s"
    and "default_sigint_action s1 = default_sigint_action s"
    and "default_sigchld_action s1 = default_sigchld_action s"
  shows "good_child J (fork_child e com rd pf bg s1)"
  using child_signal_state[of e com rd pf bg "child_of s1"] assms
  by (auto simp: good_child_def fork_child_def shell_inv_def child_of_def split: prod.splits)

lemma pok_runCommand:
  assumes "fork_pid e (forks_made s) \<noteq> 0" and "shell_inv J s"
  shows "pok J (runCommand e com rd pf bg s)"
proof (cases "fork_pid e (forks_made s) = - 1")
  case True
  then show ?thesis using assms(2)
    by (auto simp: runCommand_def Let_def after_fork_def pok_def state_of_def perror_def
        logged_def intro!: shell_inv_upd)
next
  case False
  have g: "good_child J (fork_child e com rd pf bg (logged Fflush s))"
    by (rule good_fork_child[OF assms(2)]) (simp_all add: logged_def)
  show ?thesis
    unfolding runCommand_parent[OF False assms(1)] pok_Returned
    using assms(2) g
    by (cases bg) (auto intro!: shell_inv_upd)
qed

lemma pok_launch_stages:
  "nofork0 e \<Longrightarrow> shell_inv J s \<Longrightarrow> pok J (launch_stages e c cs rd bg s)"
proof (induction cs arbitrary: c rd s)
  case Nil
  then show ?case
    by (auto simp: nofork0_def intro!: pok_and_then pok_runCommand pok_closeFileDescriptor)
next
  case (Cons c' cs)
  obtain r0 pf s1 where sp: "sys_pipe e s = (r0, pf, s1)" by (cases "sys_pipe e s") auto
  have i1: "shell_inv J s1"
    using sp Cons.prems(2)
    by (auto simp: sys_pipe_def logged_def split: option.splits intro!: shell_inv_upd)
  show ?case
  proof (cases "r0 = - 1")
    case True
    then show ?thesis using sp i1
      by (simp add: pok_def state_of_def perror_def shell_inv_logged)
  next
    case False
    then show ?thesis using sp i1 Cons.prems(1) Cons.IH[OF Cons.prems(1)]
      by (auto simp: nofork0_def intro!: pok_and_then pok_runCommand pok_closeFileDescriptor)
  qed
qed

lemma pok_wait: "shell_inv J s \<Longrightarrow> pok J (waitForForegroundChildren e s)"
  by (auto simp: waitForForegroundChildren_def Let_def pok_def state_of_def logged_def
      shell_inv_simps intro!: shell_inv_upd)

lemma pok_general_path:
  assumes "nofork0 e" and "shell_inv J s"
  shows "pok J (general_path e c cs bg s)"
proof -
  obtain r0 s1 where sd: "sys_dup e STDIN_FILENO s = (r0, s1)" by (cases "sys_dup e STDIN_FILENO s") auto
  have i1: "shell_inv J s1"
    using sd assms(2)
    by (auto simp: sys_dup_def logged_def split: option.splits intro!: shell_inv_upd)
  have i2: "shell_inv J (blockChildSignal s1)"
    using i1 by (auto simp: blockChildSignal_def logged_def intro!: shell_inv_upd)
  have un: "\<And>s4. shell_inv J s4 \<Longrightarrow> shell_inv J (unblockChildSignal s4)"
    by (auto simp: unblockChildSignal_def logged_def intro!: shell_inv_upd)
  show ?thesis
  proof (cases "r0 = - 1")
    case True
    have "shell_inv J (perror ''dup() failed'' s1)"
      using i1 by (simp add: perror_def shell_inv_logged)
    then have "pok J (Exited EXIT_FAILURE (perror ''dup() failed'' s1) :: (unit, shell) outcome)"
      by (simp add: pok_def state_of_def)
    then show ?thesis using sd True by (simp add: general_path_def)
  next
    case False
    have "pok J (and_then (launch_stages e c cs r0 bg (blockChildSignal s1)) (\<lambda>_ s2.
        and_then
          (if \<not> bg then waitForForegroundChildren e s2 else Returned () s2)
          (\<lambda>_ s3. Returned () (unblockChildSignal s3))))"
      apply (rule pok_and_then[OF pok_launch_stages[OF assms(1) i2]])
      apply (rule pok_and_then)
       apply (cases bg; simp add: pok_Returned pok_wait)
      apply (simp add: pok_Returned un)
      done
    then show ?thesis using sd False by (simp add: general_path_def)
  qed
qed

lemma runPipeline_cases:
  "runPipeline e pl s = Faulted s \<or>
   (\<exists>c cs. commands pl = c # cs \<and>
      runPipeline e pl s = general_path e c cs (pl_flags pl = INBACKGROUND) s) \<or>
   (\<exists>com b. commands pl = [Some com] \<and> redirs com = [] \<and> pl_flags pl \<noteq> INBACKGROUND \<and>
      args com \<noteq> [] \<and> getBuiltin e (hd (args com)) = Some b \<and>
      runPipeline e pl s =
        Returned ()
          (s\<lparr>log := log s @
               CallBuiltin (hd (args com)) (args com) (b (args com)) #
               (if b (args com) = BUILTIN_ERROR e
                then [Stderr (''Builtin '' @ hd (args com) @ '' error.\<newline>'')] else [])\<rparr>))"
proof (cases "commands pl")
  case Nil
  then show ?thesis by (simp add: runPipeline_def)
next
  case (Cons c cs)
  show ?thesis
  proof (cases "cs = [] \<and> (\<exists>com. c = Some com \<and> redirs com = [] \<and> pl_flags pl \<noteq> INBACKGROUND)")
    case False
    then show ?thesis using Cons
      by (cases c) (auto simp: runPipeline_def Let_def)
  next
    case True
    then obtain com where c: "cs = []" "c = Some com" "redirs com = []" "pl_flags pl \<noteq> INBACKGROUND"
      by blast
    show ?thesis
    proof (cases "args com")
      case Nil
      then show ?thesis using Cons c by (simp add: runPipeline_def Let_def getArgVector_def)
    next
      case (Cons a as)
      show ?thesis
      proof (cases "getBuiltin e a")
        case None
        then show ?thesis using \<open>commands pl = c # cs\<close> c Cons
          by (simp add: runPipeline_def Let_def getArgVector_def)
      next
        case (Some b)
        then show ?thesis using \<open>commands pl = c # cs\<close> c Cons
          by (simp add: runPipeline_def Let_def getArgVector_def logged_def fprintf_stderr_def)
      qed
    qed
  qed
qed

lemma pok_runPipeline:
  assumes "nofork0 e" and "shell_inv J s"
  shows "pok J (runPipeline e pl s)"
proof -
  have f: "pok J (Faulted s :: (unit, shell) outcome)" using assms(2) by (simp add: pok_def state_of_def)
  have g: "\<And>c cs bg. pok J (general_path e c cs bg s)" using assms by (rule pok_general_path)
  have b: "pok J (Returned () (s\<lparr>log := log s @ CallBuiltin n av r # evs\<rparr>) :: (unit, shell) outcome)"
    if "forks evs = []" for n av r evs
    unfolding pok_Returned using that assms(2)
    by (intro shell_inv_upd) simp_all
  from runPipeline_cases[of e pl s] show ?thesis
  proof (elim disjE exE conjE)
    assume "runPipeline e pl s = Faulted s"
    then show ?thesis using f by simp
  next
    fix c cs
    assume "runPipeline e pl s = general_path e c cs (pl_flags pl = INBACKGROUND) s"
    then show ?thesis using g by simp
  next
    fix com b'
    assume "runPipeline e pl s =
        Returned ()
          (s\<lparr>log := log s @
               CallBuiltin (hd (args com)) (args com) (b' (args com)) #
               (if b' (args com) = BUILTIN_ERROR e
                then [Stderr (''Builtin '' @ hd (args com) @ '' error.\<newline>'')] else [])\<rparr>)"
    then show ?thesis using b by simp
  qed
qed

lemma pok_Faulted: "pok J (Faulted s) = shell_inv J s"
  by (simp add: pok_def state_of_def)

lemma pok_run_pipelines:
  "nofork0 e \<Longrightarrow> shell_inv J s \<Longrightarrow> pok J (run_pipelines e k h p s)"
proof (induction k arbitrary: p s)
  case 0
  then show ?case by (simp add: pok_Returned)
next
  case (Suc k)
  show ?case
  proof (cases "deref h p")
    case None
    then show ?thesis using Suc.prems by (simp add: pok_Faulted)
  next
    case (Some node)
    show ?thesis
    proof (cases "pipeline_of node")
      case None
      then show ?thesis using Some Suc.prems by (simp add: pok_Faulted)
    next
      case (Some pl)
      have "pok J (and_then (runPipeline e pl s) (\<lambda>_. run_pipelines e k h (nxt node)))"
        by (rule pok_and_then[OF pok_runPipeline[OF Suc.prems]]) (rule Suc.IH[OF Suc.prems(1)])
      then show ?thesis using \<open>deref h p = Some node\<close> Some by simp
    qed
  qed
qed

lemma handleLine_inv:
  assumes "nofork0 e" and "shell_inv J s"
  shows "shell_inv J (state_of (handleLine e s)) \<and>
         (\<forall>n s'. handleLine e s = Exited n s' \<longrightarrow>
            n = EXIT_FAILURE \<or>
            (n = EXIT_SUCCESS \<and> rd_line (getLine e (lines_read s)) = None \<and>
             rd_errno (getLine e (lines_read s)) \<noteq> Some EIO \<and>
             s' = logged GetLine (s\<lparr>lines_read := Suc (lines_read s)\<rparr>))) \<and>
         (\<forall>p av s'. handleLine e s \<noteq> Execed p av s')"
proof -
  let ?s1 = "logged GetLine (s\<lparr>lines_read := Suc (lines_read s)\<rparr>)"
  let ?r = "getLine e (lines_read s)"
  have i1: "shell_inv J ?s1"
    using assms(2) by (auto simp: logged_def intro!: shell_inv_upd)
  have i2: "shell_inv J (fprintf_stderr msg ?s1)" for msg
    using i1 by (simp add: fprintf_stderr_def shell_inv_logged)
  have rp: "pok J (run_pipelines e k h p ?s1)" for k h p
    using assms(1) i1 by (rule pok_run_pipelines)
  have pk: "pok J out \<Longrightarrow> shell_inv J (state_of out) \<and>
         (\<forall>n s'. out = Exited n s' \<longrightarrow> n = EXIT_FAILURE) \<and> (\<forall>p av s'. out \<noteq> Execed p av s')"
    for out :: "(unit, shell) outcome"
    by (cases out) (auto simp: pok_def)
  show ?thesis
  proof (cases "rd_errno ?r = Some EIO")
    case True
    then show ?thesis using i2 by (simp add: handleLine_def Let_def state_of_def)
  next
    case False
    show ?thesis
    proof (cases "rd_line ?r")
      case None
      then show ?thesis using False i1 by (simp add: handleLine_def Let_def state_of_def)
    next
      case (Some line)
      obtain h pls where pa: "parseline e line = (h, pls)" by (cases "parseline e line")
      show ?thesis
      proof (cases "removeEmptyPipelines h pls")
        case None
        then show ?thesis using False Some pa i1 by (simp add: handleLine_def Let_def state_of_def)
      next
        case (Some res)
        obtain count h' p' where res: "res = (count, h', p')" by (cases res)
        show ?thesis
        proof (cases "count = - 1")
          case True
          then show ?thesis using False \<open>rd_line ?r = Some line\<close> pa Some res i2
            by (simp add: handleLine_def Let_def state_of_def)
        next
          case c: False
          have "handleLine e s = run_pipelines e (nat count) h' p' ?s1"
            using False \<open>rd_line ?r = Some line\<close> pa Some res c by (simp add: handleLine_def Let_def)
          then show ?thesis using pk[OF rp[of "nat count" h' p']] by simp
        qed
      qed
    qed
  qed
qed

lemma install_handlers_inv:
  "shell_inv (\<lparr>sa_handler = SIG_IGN, sa_flags = {}, sa_mask = {}\<rparr>, sigint_disp t, sigchld_disp t,
      length (log t)) (install_handlers t)"
  by (simp add: install_handlers_def sys_sigaction_def shell_inv_def logged_def)

lemma shell_inv_start:
  "shell_inv (sigint_disp s, default_sigint_action s, default_sigchld_action s, length (log s)) s"
  by (simp add: shell_inv_def)

lemma main_loop_inv:
  assumes "main_loop e s = Some out" and "nofork0 e" and "shell_inv J s"
  shows "main_ok J e out"
proof -
  have "nofork0 e \<longrightarrow> shell_inv J s \<longrightarrow> main_ok J e out"
  proof (rule main_loop.raw_induct[where P = "\<lambda>e s out. nofork0 e \<longrightarrow> shell_inv J s \<longrightarrow> main_ok J e out",
        OF _ assms(1)])
    fix f :: "env \<Rightarrow> shell \<Rightarrow> (unit, shell) outcome option" and e s out
    assume IH: "\<And>e s y. f e s = Some y \<Longrightarrow> nofork0 e \<longrightarrow> shell_inv J s \<longrightarrow> main_ok J e y"
    assume body: "(let s1 = if isatty_stdin e
               then logged Fflush
                     (logged (Stdout (PROMPT_STR e))
                       (printBackgroundChildrenInfo s))
               else s
      in case handleLine e s1 of Returned u s2 \<Rightarrow> f e s2
         | Exited n s2 \<Rightarrow> Some (Exited n s2)
         | Execed p av s2 \<Rightarrow> Some (Execed p av s2)
         | Faulted s2 \<Rightarrow> Some (Faulted s2)
         | Blocked s2 \<Rightarrow> Some (Blocked s2)) =
     Some out"
    show "nofork0 e \<longrightarrow> shell_inv J s \<longrightarrow> main_ok J e out"
    proof (intro impI)
      assume nf: "nofork0 e" and inv: "shell_inv J s"
      let ?s1 = "if isatty_stdin e
         then logged Fflush (logged (Stdout (PROMPT_STR e)) (printBackgroundChildrenInfo s))
         else s"
      have i1: "shell_inv J ?s1"
        using inv by (simp add: printBackgroundChildrenInfo_def shell_inv_logged)
      note hl = handleLine_inv[OF nf i1]
      show "main_ok J e out"
      proof (cases "handleLine e ?s1")
        case (Returned u s2)
        then have "f e s2 = Some out" using body by (simp add: Let_def)
        moreover have "shell_inv J s2" using hl Returned by (simp add: state_of_def)
        ultimately show ?thesis using IH[of e s2 out] nf by blast
      next
        case (Exited n s2)
        then have o: "out = Exited n s2" using body by (simp add: Let_def)
        from hl Exited have "shell_inv J s2" by (simp add: state_of_def)
        moreover from hl Exited have "n = EXIT_FAILURE \<or>
            (n = EXIT_SUCCESS \<and> rd_line (getLine e (lines_read ?s1)) = None \<and>
             rd_errno (getLine e (lines_read ?s1)) \<noteq> Some EIO \<and>
             s2 = logged GetLine (?s1\<lparr>lines_read := Suc (lines_read ?s1)\<rparr>))"
          by blast
        ultimately show ?thesis unfolding o main_ok_def
          by (auto simp: state_of_def logged_def)
      next
        case (Execed p av s2)
        then show ?thesis using hl by blast
      next
        case (Faulted s2)
        then have o: "out = Faulted s2" using body by (simp add: Let_def)
        then show ?thesis using hl Faulted by (simp add: state_of_def main_ok_def)
      next
        case (Blocked s2)
        then have o: "out = Blocked s2" using body by (simp add: Let_def)
        then show ?thesis using hl Blocked by (simp add: state_of_def main_ok_def)
      qed
    qed
  qed
  then show ?thesis using assms(2,3) by blast
qed

lemma env_one_simps:
  "getBuiltin ex_env_one = getBuiltin ex_env" "parseline ex_env_one = ex_parseline"
  "getLine ex_env_one k = (if k = 0 then \<lparr>rd_errno = None, rd_line = Some ''true ; ; false''\<rparr>
                            else \<lparr>rd_errno = None, rd_line = None\<rparr>)"
  "isatty_stdin ex_env_one = False" "OPEN_MAX ex_env_one = 8"
  "fork_pid ex_env_one k = 100 + int k" "child_exits ex_env_one pid = True"
  by (simp_all add: ex_env_one_def env_simps)

lemma ex_true_false_validated:
  "removeEmptyPipelines line_true_false (Suc 0) =
     Some (2, line_true_false(Suc 0 \<mapsto> ex_node [cmd [''true'']] 3), Suc 0)"
  by (simp add: removeEmptyPipelines_def count_pipelines.simps line_true_false_def deref_def
      NULL_def ex_node_def cmd_def)

lemma ex_main_exits: "\<exists>s'. main ex_env_one ex_shell = Some (Exited EXIT_SUCCESS s')"
proof -
  let ?s = "install_handlers ex_shell"
  have s: "?s = ex_shell\<lparr>sigint_disp := \<lparr>sa_handler = SIG_IGN, sa_flags = {}, sa_mask = {}\<rparr>,
      sigchld_disp := \<lparr>sa_handler = sigchldHandler, sa_flags = {SA_NOCLDSTOP, SA_RESTART}, sa_mask = {}\<rparr>,
      log := [Sigaction SIGINT \<lparr>sa_handler = SIG_IGN, sa_flags = {}, sa_mask = {}\<rparr>,
              Sigaction SIGCHLD \<lparr>sa_handler = sigchldHandler, sa_flags = {SA_NOCLDSTOP, SA_RESTART}, sa_mask = {}\<rparr>]\<rparr>"
    by (simp add: install_handlers_def sys_sigaction_def logged_def ex_shell_def)
  have h1: "\<exists>s1. handleLine ex_env_one ?s = Returned () s1 \<and> lines_read s1 = 1"
    unfolding s
    apply (simp add: handleLine_def env_one_simps ex_shell_def ex_parseline_def
        ex_true_false_validated Let_def)
    apply (simp add: numeral_2_eq_2 line_true_false_def deref_def NULL_def ex_node_def cmd_def
        runPipeline_def getArgVector_def env_simps parent_eval env_one_simps)
    done
  then obtain s1 where s1: "handleLine ex_env_one ?s = Returned () s1" "lines_read s1 = 1" by blast
  have h2: "handleLine ex_env_one s1 = Exited EXIT_SUCCESS (logged GetLine (s1\<lparr>lines_read := 2\<rparr>))"
    using s1(2) by (simp add: handleLine_def env_one_simps Let_def numeral_2_eq_2)
  have "main_loop ex_env_one s1 = Some (Exited EXIT_SUCCESS (logged GetLine (s1\<lparr>lines_read := 2\<rparr>)))"
    by (subst main_loop.simps) (simp add: env_one_simps h2)
  then have "main_loop ex_env_one ?s = Some (Exited EXIT_SUCCESS (logged GetLine (s1\<lparr>lines_read := 2\<rparr>)))"
    by (subst main_loop.simps) (simp add: env_one_simps s1)
  then show ?thesis by (simp add: main_def)
qed

lemma nofork0_ex: "nofork0 ex_env_one"
  by (simp add: nofork0_def env_one_simps)

text \<open>
  C8. A child, whatever the state it is born in: it first starts a session
  of its own when the pipeline is a background one, then unblocks the
  termination notification and sets the actions for \<^verbatim>\<open>SIGINT\<close> and \<^verbatim>\<open>SIGCHLD\<close>
  to the saved ones, and all it does afterwards is descriptor work and the
  \<^verbatim>\<open>execvp\<close>; so at its end, be it the program or an exit, its signal state
  is the saved one and the notification is unblocked. In a run of \<^verbatim>\<open>main\<close>
  the saved actions are those in force before the shell installed its own:
  every child of the run ends with the actions of the state \<^verbatim>\<open>main\<close> was
  started in, unblocked, and in a session of its own exactly when it belongs
  to a background pipeline, while the shell itself has \<^verbatim>\<open>SIGINT\<close> ignored;
  no line changes the action of the shell for \<^verbatim>\<open>SIGINT\<close>.
\<close>

theorem C8_child_signal_state:
  "sigint_disp (state_of (after_fork e 0 com rd pf bg s)) = default_sigint_action s \<and>
   sigchld_disp (state_of (after_fork e 0 com rd pf bg s)) = default_sigchld_action s \<and>
   \<not> sigchld_blocked (state_of (after_fork e 0 com rd pf bg s)) \<and>
   own_session (state_of (after_fork e 0 com rd pf bg s)) = (bg \<or> own_session s) \<and>
   (\<exists>evs. log (state_of (after_fork e 0 com rd pf bg s)) =
           log s @ (if bg then [Setsid] else []) @
           [UnblockChildSignal, Sigaction SIGINT (default_sigint_action s),
            Sigaction SIGCHLD (default_sigchld_action s)] @ evs \<and>
         list_all fd_event evs) \<and>
   (nofork0 e \<and> main e t = Some out \<longrightarrow>
      sa_handler (sigint_disp (state_of out)) = SIG_IGN \<and>
      list_all
        (\<lambda>ch. sigint_disp (state_of (child_outcome ch)) = sigint_disp t \<and>
              sigchld_disp (state_of (child_outcome ch)) = sigchld_disp t \<and>
              \<not> sigchld_blocked (state_of (child_outcome ch)) \<and>
              own_session (state_of (child_outcome ch)) = child_background ch)
        (map snd (forks (new_events t out)))) \<and>
   (nofork0 e \<longrightarrow> sigint_disp (state_of (handleLine e t)) = sigint_disp t)"
proof -
  have m: "sa_handler (sigint_disp (state_of out)) = SIG_IGN \<and>
      list_all
        (\<lambda>ch. sigint_disp (state_of (child_outcome ch)) = sigint_disp t \<and>
              sigchld_disp (state_of (child_outcome ch)) = sigchld_disp t \<and>
              \<not> sigchld_blocked (state_of (child_outcome ch)) \<and>
              own_session (state_of (child_outcome ch)) = child_background ch)
        (map snd (forks (new_events t out)))"
    if nf: "nofork0 e" and mn: "main e t = Some out"
  proof -
    let ?J = "(\<lparr>sa_handler = SIG_IGN, sa_flags = {}, sa_mask = {}\<rparr>, sigint_disp t, sigchld_disp t,
      length (log t))"
    from mn have "main_loop e (install_handlers t) = Some out" by (simp add: main_def)
    from main_loop_inv[OF this nf install_handlers_inv]
    have "shell_inv ?J (state_of out)" by (simp add: main_ok_def)
    then show ?thesis
      by (simp add: shell_inv_def new_events_def good_child_def[abs_def])
  qed
  have h: "sigint_disp (state_of (handleLine e t)) = sigint_disp t" if nf: "nofork0 e"
    using handleLine_inv[OF nf shell_inv_start[of t]] by (simp add: shell_inv_def)
  show ?thesis
    using child_signal_state[of e com rd pf bg s] child_log[of e com rd pf bg s] m h by blast
qed

theorem C8_witness_main:
  "\<exists>s'. main ex_env_one ex_shell = Some (Exited EXIT_SUCCESS s') \<and>
        sa_handler (sigint_disp s') = SIG_IGN \<and>
        list_all (\<lambda>ch. sigint_disp (state_of (child_outcome ch)) = dfl_action \<and>
                       \<not> sigchld_blocked (state_of (child_outcome ch)))
          (map snd (forks (log s')))"
proof -
  from ex_main_exits obtain s' where m: "main ex_env_one ex_shell = Some (Exited EXIT_SUCCESS s')"
    by blast
  from C8_child_signal_state[of ex_env_one None 0 None False ex_shell ex_shell
      "Exited EXIT_SUCCESS s'"] nofork0_ex m
  have "sa_handler (sigint_disp s') = SIG_IGN \<and>
      list_all
        (\<lambda>ch. sigint_disp (state_of (child_outcome ch)) = sigint_disp ex_shell \<and>
              sigchld_disp (state_of (child_outcome ch)) = sigchld_disp ex_shell \<and>
              \<not> sigchld_blocked (state_of (child_outcome ch)) \<and>
              own_session (state_of (child_outcome ch)) = child_background ch)
        (map snd (forks (new_events ex_shell (Exited EXIT_SUCCESS s' :: (unit, shell) outcome))))"
    by (simp add: state_of_def)
  then have "sa_handler (sigint_disp s') = SIG_IGN \<and>
        list_all (\<lambda>ch. sigint_disp (state_of (child_outcome ch)) = dfl_action \<and>
                       \<not> sigchld_blocked (state_of (child_outcome ch)))
          (map snd (forks (log s')))"
    by (simp add: new_events_def state_of_def ex_shell_def list_all_iff)
  then show ?thesis using m by blast
qed



section \<open>Where the code departs from the specification\<close>



lemma after_fork_child:
  "after_fork e 0 com rd pf bg s =
     and_then (moveFileDescriptor e rd STDIN_FILENO (child_setup bg s)) (\<lambda>_ s5.
        and_then
          (case pf of
             None \<Rightarrow> Returned () s5
           | Some (p0, p1) \<Rightarrow>
               and_then (moveFileDescriptor e p1 STDOUT_FILENO s5)
                 (\<lambda>_. closeFileDescriptor p0)) (\<lambda>_ s6.
        (case com of
           None \<Rightarrow> Faulted s6
         | Some c \<Rightarrow> and_then (add_all_redirs e (redirs c) s6) (\<lambda>_. exec_command e c))))"
proof -
  let ?s1 = "if bg then sys_setsid s else s"
  let ?s2 = "unblockChildSignal ?s1"
  let ?s3 = "snd (sys_sigaction SIGINT (default_sigint_action ?s2) ?s2)"
  let ?s4 = "snd (sys_sigaction SIGCHLD (default_sigchld_action ?s3) ?s3)"
  have s4: "?s4 = child_setup bg s"
    by (simp add: child_setup_def sys_setsid_def unblockChildSignal_def sys_sigaction_def
        logged_def)
  show ?thesis unfolding s4[symmetric] by (simp add: after_fork_def Let_def)
qed

lemma move_fresh:
  assumes "fds s a = Some x" and "a \<noteq> b" and "0 \<le> b" and "b < int (OPEN_MAX e)"
  shows "\<exists>s'. moveFileDescriptor e a b s = Returned () s' \<and>
              fds s' = (fds s)(b \<mapsto> x, a := None)"
  using assms
  by (simp add: moveFileDescriptor_def sys_dup2_def closeFileDescriptor_def sys_close_def
      logged_def)

lemma close_open:
  assumes "fds s a = Some x"
  shows "\<exists>s'. closeFileDescriptor a s = Returned () s' \<and> fds s' = (fds s)(a := None)"
  using assms by (simp add: closeFileDescriptor_def sys_close_def logged_def)

lemma table_last:
  fixes B :: "'a \<Rightarrow> 'b option"
  assumes "B rd = None" and "rd \<noteq> i"
  shows "(B(rd \<mapsto> d))(i \<mapsto> d, rd := None) = B(i \<mapsto> d)"
  using assms by (intro ext) auto

lemma table_mid:
  fixes B :: "'a \<Rightarrow> 'b option"
  assumes "B rd = None" and "B r = None" and "B w = None"
    and "r \<noteq> rd" and "w \<noteq> rd" and "r \<noteq> w"
    and "rd \<noteq> i" and "r \<noteq> i" and "w \<noteq> i"
    and "rd \<noteq> j" and "r \<noteq> j" and "w \<noteq> j"
  shows "(B(rd \<mapsto> d, r \<mapsto> x, w \<mapsto> y))(i \<mapsto> d, rd := None, j \<mapsto> y, w := None, r := None) =
         B(i \<mapsto> d, j \<mapsto> y)"
  using assms by (intro ext) auto

lemma child_last_launched:
  assumes "fds s = B(rd \<mapsto> d)" and "B rd = None" and "B STDIN_FILENO \<noteq> None"
    and "0 < OPEN_MAX e"
  shows "\<exists>s6. fds s6 = B(STDIN_FILENO \<mapsto> d) \<and>
     after_fork e 0 com rd None bg s =
       (case com of
          None \<Rightarrow> Faulted s6
        | Some c \<Rightarrow> and_then (add_all_redirs e (redirs c) s6) (\<lambda>_. exec_command e c))"
proof -
  let ?K = "\<lambda>s6. case com of
          None \<Rightarrow> Faulted s6
        | Some c \<Rightarrow> and_then (add_all_redirs e (redirs c) s6) (\<lambda>_. exec_command e c)"
  let ?s4 = "child_setup bg s"
  have f4: "fds ?s4 = B(rd \<mapsto> d)" using assms(1) by (simp add: child_setup_def)
  have ne: "rd \<noteq> STDIN_FILENO" using assms(2,3) by auto
  have "fds ?s4 rd = Some d" by (simp add: f4)
  from move_fresh[OF this ne, of e] assms(4) obtain s6 where
    m: "moveFileDescriptor e rd STDIN_FILENO ?s4 = Returned () s6"
    and f6: "fds s6 = (fds ?s4)(STDIN_FILENO \<mapsto> d, rd := None)"
    by (auto simp: STDIN_FILENO_def)
  have t: "fds s6 = B(STDIN_FILENO \<mapsto> d)"
    unfolding f6 f4 using assms(2) ne by (rule table_last[of B rd STDIN_FILENO d])
  have a: "after_fork e 0 com rd None bg s =
      and_then (moveFileDescriptor e rd STDIN_FILENO ?s4) (\<lambda>_ s5.
        and_then (Returned () s5) (\<lambda>_. ?K))"
    by (simp add: after_fork_child)
  have b: "and_then (moveFileDescriptor e rd STDIN_FILENO ?s4) (\<lambda>_ s5.
        and_then (Returned () s5) (\<lambda>_. ?K)) = ?K s6"
    by (simp only: m and_then.simps)
  show ?thesis
    by (intro exI[of _ s6] conjI) (rule t, simp only: a b)
qed

lemma child_mid_launched:
  assumes "fds s = B(rd \<mapsto> d, r \<mapsto> x, w \<mapsto> y)"
    and "B rd = None" and "B r = None" and "B w = None"
    and "r \<noteq> rd" and "w \<noteq> rd" and "r \<noteq> w"
    and "B STDIN_FILENO \<noteq> None" and "B STDOUT_FILENO \<noteq> None" and "2 \<le> OPEN_MAX e"
  shows "\<exists>s6. fds s6 = B(STDIN_FILENO \<mapsto> d, STDOUT_FILENO \<mapsto> y) \<and>
     after_fork e 0 com rd (Some (r, w)) bg s =
       (case com of
          None \<Rightarrow> Faulted s6
        | Some c \<Rightarrow> and_then (add_all_redirs e (redirs c) s6) (\<lambda>_. exec_command e c))"
proof -
  let ?K = "\<lambda>s6. case com of
          None \<Rightarrow> Faulted s6
        | Some c \<Rightarrow> and_then (add_all_redirs e (redirs c) s6) (\<lambda>_. exec_command e c)"
  let ?s4 = "child_setup bg s"
  have f4: "fds ?s4 = B(rd \<mapsto> d, r \<mapsto> x, w \<mapsto> y)"
    using assms(1) by (simp add: child_setup_def)
  have ne: "rd \<noteq> STDIN_FILENO" "r \<noteq> STDIN_FILENO" "w \<noteq> STDIN_FILENO"
    "rd \<noteq> STDOUT_FILENO" "r \<noteq> STDOUT_FILENO" "w \<noteq> STDOUT_FILENO"
    using assms(2-4,8,9) by auto
  have "fds ?s4 rd = Some d" using assms(5,6) by (simp add: f4)
  from move_fresh[OF this ne(1), of e] assms(10) obtain s5 where
    m1: "moveFileDescriptor e rd STDIN_FILENO ?s4 = Returned () s5"
    and f5: "fds s5 = (fds ?s4)(STDIN_FILENO \<mapsto> d, rd := None)"
    by (auto simp: STDIN_FILENO_def)
  have "fds s5 w = Some y" using assms(6) ne(3) by (simp add: f5 f4)
  from move_fresh[OF this ne(6), of e] assms(10) obtain s5a where
    m2: "moveFileDescriptor e w STDOUT_FILENO s5 = Returned () s5a"
    and f5a: "fds s5a = (fds s5)(STDOUT_FILENO \<mapsto> y, w := None)"
    by (auto simp: STDOUT_FILENO_def)
  have "fds s5a r = Some x" using assms(5,7) ne(2,5) by (simp add: f5a f5 f4)
  from close_open[OF this] obtain s6 where
    m3: "closeFileDescriptor r s5a = Returned () s6"
    and f6: "fds s6 = (fds s5a)(r := None)"
    by blast
  have t: "fds s6 = B(STDIN_FILENO \<mapsto> d, STDOUT_FILENO \<mapsto> y)"
    unfolding f6 f5a f5 f4 using assms(2-7) ne
    by (rule table_mid[of B rd r w STDIN_FILENO STDOUT_FILENO d x y])
  have a: "after_fork e 0 com rd (Some (r, w)) bg s =
      and_then (moveFileDescriptor e rd STDIN_FILENO ?s4) (\<lambda>_ s5.
        and_then
          (and_then (moveFileDescriptor e w STDOUT_FILENO s5) (\<lambda>_. closeFileDescriptor r))
          (\<lambda>_. ?K))"
    by (simp add: after_fork_child)
  have b: "and_then (moveFileDescriptor e rd STDIN_FILENO ?s4) (\<lambda>_ s5.
        and_then
          (and_then (moveFileDescriptor e w STDOUT_FILENO s5) (\<lambda>_. closeFileDescriptor r))
          (\<lambda>_. ?K)) = ?K s6"
    by (simp only: m1 m2 m3 and_then.simps)
  show ?thesis
    by (intro exI[of _ s6] conjI) (rule t, simp only: a b)
qed

lemma wired_streamed:
  "wired B rd d k cmds chs \<Longrightarrow> list_all (born_of e bg s0) chs \<Longrightarrow> B rd = None \<Longrightarrow>
   B STDIN_FILENO \<noteq> None \<Longrightarrow> B STDOUT_FILENO \<noteq> None \<Longrightarrow> 2 \<le> OPEN_MAX e \<Longrightarrow>
   streamed e B d k chs"
proof (induction B rd d k cmds chs rule: wired.induct)
  case (1 B rd d k c ch)
  then have co: "child_outcome ch = after_fork e 0 (child_com ch) rd None bg (child_image ch)"
    and tb: "fds (child_image ch) = B(rd \<mapsto> d)"
    by (simp_all add: born_of_def)
  from child_last_launched[OF tb 1(3) 1(4), of e "child_com ch" bg] 1(6)
  show ?case by (simp add: launched_def co)
next
  case (2 B rd d k c c' cs ch ch' chs)
  from 2(2) obtain r w where
    pf: "child_pipe_fds ch = Some (r, w)" and rdf: "child_read_fd ch = rd"
    and tb: "fds (child_image ch) = B(rd \<mapsto> d, r \<mapsto> PipeRead k, w \<mapsto> PipeWrite k)"
    and fr: "B r = None" "B w = None" "r \<noteq> rd" "w \<noteq> rd" "r \<noteq> w"
    and rest: "wired B r (PipeRead k) (Suc k) (c' # cs) (ch' # chs)"
    by (auto split: option.splits)
  from 2(3) have b1: "born_of e bg s0 ch" and bo: "list_all (born_of e bg s0) (ch' # chs)"
    by simp_all
  from b1 have
    co: "child_outcome ch = after_fork e 0 (child_com ch) rd (Some (r, w)) bg (child_image ch)"
    by (simp add: born_of_def pf rdf)
  from child_mid_launched[OF tb 2(4) fr 2(5) 2(6) 2(7), of "child_com ch" bg]
  have "launched e ch (B(STDIN_FILENO \<mapsto> d, STDOUT_FILENO \<mapsto> PipeWrite k))"
    by (simp add: launched_def co)
  moreover have "streamed e B (PipeRead k) (Suc k) (ch' # chs)"
    using "2.IH"[OF pf _ rest bo fr(1) 2(5) 2(6) 2(7)] by simp
  ultimately show ?case by simp
qed simp_all

text \<open>
  When the shell has its standard output, every stage of a pipeline that
  runs to its return on the general path has the streams that the
  specification gives it.
\<close>

lemma general_path_streams:
  assumes "general_path e c cs bg s = Returned u s'" and "fds s STDOUT_FILENO \<noteq> None"
  shows "\<exists>d0. fds s STDIN_FILENO = Some d0 \<and>
     streamed e (fds s) d0 (pipes_made s) (map snd (forks (new_events s (Returned u s'))))"
proof -
  from general_path_Returned[OF assms(1)] obtain r0 d0 stages where
    d0: "fds s STDIN_FILENO = Some d0" and fr: "fds s r0 = None"
    and wi: "wired (fds s) r0 d0 (pipes_made s) (c # cs) (map snd stages)"
    and bo: "list_all (born_of e bg (s\<lparr>sigchld_blocked := True\<rparr>)) (map snd stages)"
    and s': "s' = s\<lparr>sigchld_blocked := False,
            foreground := (if bg then foreground s else []),
            pipes_made := pipes_made s + length cs,
            forks_made := forks_made s + Suc (length cs),
            log := log s @ [Dup STDIN_FILENO r0, BlockChildSignal] @ chain_events bg r0 stages @
              (if bg then [] else [WaitForForegroundChildren (foreground s @ map fst stages)]) @
              [UnblockChildSignal]\<rparr>"
    by blast
  have ne: "new_events s (Returned u s') =
      [Dup STDIN_FILENO r0, BlockChildSignal] @ chain_events bg r0 stages @
      (if bg then [] else [WaitForForegroundChildren (foreground s @ map fst stages)]) @
      [UnblockChildSignal]"
    by (rule new_events_Returned) (simp add: s')
  have fk: "forks (new_events s (Returned u s')) = stages"
    unfolding ne by (simp add: forks_append chain_events_digest)
  obtain r s1 where sd: "sys_dup e STDIN_FILENO s = (r, s1)" by (cases "sys_dup e STDIN_FILENO s") auto
  from assms(1) sd have ok: "r \<noteq> - 1" by (auto simp: general_path_def split: if_splits)
  from sd ok have "free_fd e (fds s) = Some r"
    by (auto simp: sys_dup_def split: option.splits)
  from free_fd_range[OF this] free_fd_SomeD[OF this] d0 assms(2)
  have "2 \<le> OPEN_MAX e"
    by (cases "r = 0"; cases "r = 1") (auto simp: STDIN_FILENO_def STDOUT_FILENO_def)
  from wired_streamed[OF wi bo fr _ assms(2) this] d0
  have "streamed e (fds s) d0 (pipes_made s) (map snd stages)" by simp
  then show ?thesis using d0 unfolding fk by blast
qed

text \<open>
  C3 fails on the code. A stage that is not the last one moves the write end
  of its pipe to descriptor 1 and then closes the read end of its pipe,
  without testing whether the read end is descriptor 1 itself
  (\<^verbatim>\<open>moveFileDescriptor\<close> does test whether its two descriptors are the same).
  When the shell was started with its standard output closed, the pipe of
  the second stage of \<^verbatim>\<open>a | b | c\<close> gets descriptor 1 as its read end, and the
  child for \<^verbatim>\<open>b\<close> closes what it has just made its standard output: \<^verbatim>\<open>b\<close> is
  executed reading from the pipe of \<^verbatim>\<open>a\<close> and with no standard output at all,
  not writing to its own pipe. When the shell has its standard output, the
  same pipeline, like every other one, is wired as the specification says.
\<close>

theorem C3_middle_stage_stdout_closed:
  "stage_streams (new_events ex_shell_no_stdout
     (general_path ex_env (cmd [''a'']) [cmd [''b''], cmd [''c'']] False ex_shell_no_stdout)) =
     [Some (Some (Inherited 0), Some (PipeWrite 0)),
      Some (Some (PipeRead 0), None),
      Some (Some (PipeRead 1), None)] \<and>
   stage_streams (new_events ex_shell
     (general_path ex_env (cmd [''a'']) [cmd [''b''], cmd [''c'']] False ex_shell)) =
     [Some (Some (Inherited 0), Some (PipeWrite 0)),
      Some (Some (PipeRead 0), Some (PipeWrite 1)),
      Some (Some (PipeRead 1), Some (Inherited 1))]"
  by (simp add: parent_eval ex_shell_no_stdout_def ex_shell_def new_events_def state_of_def
      stage_streams_def streams_at_exec_def fork_child_def child_eval cmd_def)

lemma ex_bad_second_validated:
  "removeEmptyPipelines line_bad_second (Suc 0) = Some (2, line_bad_second, Suc 0)"
  by (simp add: removeEmptyPipelines_def count_pipelines.simps line_bad_second_def deref_def
      NULL_def ex_node_def cmd_def fun_upd_twist)

lemma ex_bad_second_run:
  "handleLine ex_env (ex_shell\<lparr>lines_read := Suc 0\<rparr>) =
     run_seq ex_env
       [\<lparr>commands = [cmd [''ls'']], pl_flags = INFOREGROUND\<rparr>,
        \<lparr>commands = [cmd [''cmd1''], None, cmd [''cmd2'']], pl_flags = INFOREGROUND\<rparr>]
       (logged GetLine (ex_shell\<lparr>lines_read := 2\<rparr>))"
proof -
  let ?s = "ex_shell\<lparr>lines_read := Suc 0\<rparr>"
  have rg: "ring line_bad_second [1, 2]"
    by (simp add: ring_def line_bad_second_def deref_def NULL_def ex_node_def)
  have pl: "parseline ex_env ''ls ; cmd1 | | cmd2'' = (line_bad_second, hd [1, 2])"
    by (simp add: env_simps ex_parseline_def)
  have e1: "rd_errno (getLine ex_env (lines_read ?s)) \<noteq> Some EIO"
    by (simp add: env_simps ex_getLine_def)
  have e2: "rd_line (getLine ex_env (lines_read ?s)) = Some ''ls ; cmd1 | | cmd2''"
    by (simp add: env_simps ex_getLine_def)
  have ev: "removeEmptyPipelines line_bad_second (hd [1, 2]) = Some (2, line_bad_second, 1)"
    using ex_bad_second_validated by simp
  have ps: "filter (\<lambda>p. \<not> isEmptyPipeline p) (pipelines_at line_bad_second [1, 2]) =
      [Some \<lparr>commands = [cmd [''ls'']], pl_flags = INFOREGROUND\<rparr>,
       Some \<lparr>commands = [cmd [''cmd1''], None, cmd [''cmd2'']], pl_flags = INFOREGROUND\<rparr>]"
    by (simp add: pipelines_at_def line_bad_second_def ex_node_def cmd_def)
  have ls: "?s\<lparr>lines_read := Suc (lines_read ?s)\<rparr> = ex_shell\<lparr>lines_read := 2\<rparr>"
    by (simp add: numeral_2_eq_2)
  from handleLine_validated[OF rg pl e1 e2 ev] show ?thesis
    unfolding ps ls by simp
qed

text \<open>
  C1 fails on the code. The line \<^verbatim>\<open>ls ; cmd1 | | cmd2\<close> has a well-formed
  pipeline first and then a pipeline with an empty command between two
  pipe operators. The loop of \<^verbatim>\<open>removeEmptyPipelines\<close> that checks the
  pipelines never advances its cursor, so that it checks the first pipeline
  twice and the second one never: the line is accepted with two pipelines,
  no syntax error is printed, and \<^verbatim>\<open>ls\<close>, \<^verbatim>\<open>cmd1\<close> and \<^verbatim>\<open>cmd2\<close> are all
  executed. The same malformed pipeline at the head of the line is rejected.
\<close>

theorem C1_second_pipeline_not_checked:
  "removeEmptyPipelines line_bad_second 1 = Some (2, line_bad_second, 1) \<and>
   programs_run (new_events (ex_shell\<lparr>lines_read := 1\<rparr>)
      (handleLine ex_env (ex_shell\<lparr>lines_read := 1\<rparr>))) =
     [(''ls'', [''ls'']), (''cmd1'', [''cmd1'']), (''cmd2'', [''cmd2''])] \<and>
   filter is_diag (new_events (ex_shell\<lparr>lines_read := 1\<rparr>)
      (handleLine ex_env (ex_shell\<lparr>lines_read := 1\<rparr>))) = [] \<and>
   removeEmptyPipelines [1 \<mapsto> ex_node [cmd [''cmd1''], None, cmd [''cmd2'']] 1] 1 =
     Some (- 1, [1 \<mapsto> ex_node [cmd [''cmd1''], None, cmd [''cmd2'']] 1], NULL)"
proof -
  have 1: "removeEmptyPipelines line_bad_second 1 = Some (2, line_bad_second, 1)"
    using ex_bad_second_validated by simp
  have 2: "programs_run (new_events (ex_shell\<lparr>lines_read := Suc 0\<rparr>)
      (handleLine ex_env (ex_shell\<lparr>lines_read := Suc 0\<rparr>))) =
     [(''ls'', [''ls'']), (''cmd1'', [''cmd1'']), (''cmd2'', [''cmd2''])]"
    unfolding ex_bad_second_run
    by (simp add: runPipeline_def getArgVector_def parent_eval ex_shell_def new_events_def
        state_of_def programs_run_def List.map_filter_def fork_child_def child_eval cmd_def)
  have 4: "filter is_diag (new_events (ex_shell\<lparr>lines_read := Suc 0\<rparr>)
      (handleLine ex_env (ex_shell\<lparr>lines_read := Suc 0\<rparr>))) = []"
    unfolding ex_bad_second_run
    by (simp add: runPipeline_def getArgVector_def parent_eval ex_shell_def new_events_def
        state_of_def cmd_def)
  have 3: "removeEmptyPipelines [1 \<mapsto> ex_node [cmd [''cmd1''], None, cmd [''cmd2'']] 1] 1 =
     Some (- 1, [1 \<mapsto> ex_node [cmd [''cmd1''], None, cmd [''cmd2'']] 1], NULL)"
    by (simp add: removeEmptyPipelines_def count_pipelines.simps deref_def
      NULL_def ex_node_def cmd_def)
  from 1 2 3 4 show ?thesis by simp
qed

section \<open>Builtins and the order of the pipelines\<close>

lemma grows_refl: "grows P s s"
  by (simp add: grows_def)

lemma grows_trans: "grows P s s1 \<Longrightarrow> grows P s1 s2 \<Longrightarrow> grows P s s2"
  unfolding grows_def by (metis append.assoc list_all_append)

lemma grows_upd: "log t = log s @ evs \<Longrightarrow> list_all P evs \<Longrightarrow> grows P s t"
  by (auto simp: grows_def)

lemma grows_and_then:
  assumes "grows P s (state_of m)"
    and "\<And>x s1. m = Returned x s1 \<Longrightarrow> grows P s1 (state_of (f x s1))"
  shows "grows P s (state_of (and_then m f))"
proof (cases m)
  case (Returned x s1)
  then have "grows P s s1" using assms(1) by (simp add: state_of_def)
  then show ?thesis using assms(2)[OF Returned] Returned grows_trans by auto
qed (use assms(1) in \<open>auto simp: state_of_def\<close>)

lemma grows_close: "grows other_call s (state_of (closeFileDescriptor d s))"
  by (auto simp: closeFileDescriptor_def sys_close_def state_of_def logged_def perror_def
      other_call_def split: option.splits intro!: grows_upd)

lemma fd_event_other: "list_all fd_event evs \<Longrightarrow> list_all other_call evs"
  by (induction evs) (auto simp: other_call_def elim: fd_event.elims)

lemma grows_after_fork: "grows other_call s (state_of (after_fork e pid com rd pf bg s))"
proof (cases "pid = 0")
  case True
  from child_log[of e com rd pf bg s] obtain evs where
    "log (state_of (after_fork e 0 com rd pf bg s)) =
           log s @ (if bg then [Setsid] else []) @
           [UnblockChildSignal, Sigaction SIGINT (default_sigint_action s),
            Sigaction SIGCHLD (default_sigchld_action s)] @ evs" "list_all fd_event evs"
    by blast
  then show ?thesis using True fd_event_other[of evs]
    by (intro grows_upd[where evs = "(if bg then [Setsid] else []) @
           [UnblockChildSignal, Sigaction SIGINT (default_sigint_action s),
            Sigaction SIGCHLD (default_sigchld_action s)] @ evs"]) (auto simp: other_call_def)
next
  case False
  then show ?thesis
    by (auto simp: after_fork_def state_of_def perror_def logged_def registerForegroundChild_def
        grows_refl other_call_def intro!: grows_upd)
qed

lemma grows_wait: "grows other_call s (state_of (waitForForegroundChildren e s))"
  by (auto simp: waitForForegroundChildren_def Let_def state_of_def logged_def other_call_def
      intro!: grows_upd)

lemma grows_unblock: "grows other_call s (unblockChildSignal s)"
  by (auto simp: unblockChildSignal_def logged_def other_call_def intro!: grows_upd)

lemma grows_tail:
  "grows other_call s2
     (state_of (and_then (if \<not> bg then waitForForegroundChildren e s2 else Returned () s2)
          (\<lambda>_ s3. Returned () (unblockChildSignal s3))))"
proof (cases bg)
  case True
  then show ?thesis using grows_unblock[of s2] by (simp add: state_of_def)
next
  case False
  have "grows other_call s2 (state_of (and_then (waitForForegroundChildren e s2)
          (\<lambda>_ s3. Returned () (unblockChildSignal s3))))"
    by (rule grows_and_then[OF grows_wait]) (simp add: state_of_def grows_unblock)
  then show ?thesis using False by simp
qed

text \<open>The calls of the general path for a pipeline of one command.\<close>

lemma general_path_single_dup_fails:
  assumes "fds s STDIN_FILENO = None \<or> free_fd e (fds s) = None"
  shows "general_path e c [] bg s =
     Exited EXIT_FAILURE
       (s\<lparr>log := log s @ [Dup STDIN_FILENO (- 1), Perror ''dup() failed'']\<rparr>)"
  using assms
  by (auto simp: general_path_def sys_dup_def perror_def logged_def split: option.splits)

lemma general_path_single_log:
  assumes "fds s STDIN_FILENO = Some d0" and "free_fd e (fds s) = Some r0"
  shows "\<exists>born evs.
     log (state_of (general_path e c [] bg s)) =
       log s @ [Dup STDIN_FILENO r0, BlockChildSignal, Fflush, Fork (fork_pid e (forks_made s)) born]
         @ evs \<and>
     list_all other_call evs \<and>
     (\<forall>ch. born = Some ch \<longrightarrow>
        child_com ch = c \<and> child_read_fd ch = r0 \<and> child_pipe_fds ch = None \<and>
        child_background ch = bg \<and>
        child_outcome ch = after_fork e 0 c r0 None bg (child_image ch))"
proof -
  let ?s1 = "logged (Dup STDIN_FILENO r0) (s\<lparr>fds := (fds s)(r0 \<mapsto> d0)\<rparr>)"
  let ?s2 = "blockChildSignal ?s1"
  let ?pid = "fork_pid e (forks_made s)"
  let ?born = "if ?pid = - 1 then None else Some (fork_child e c r0 None bg (logged Fflush ?s2))"
  let ?s3 = "logged (Fork ?pid ?born) (logged Fflush ?s2\<lparr>forks_made := Suc (forks_made s)\<rparr>)"
  have sd: "sys_dup e STDIN_FILENO s = (r0, ?s1)"
    using assms by (simp add: sys_dup_def)
  have ok: "r0 \<noteq> - 1" using free_fd_range[OF assms(2)] by auto
  have rc: "runCommand e c r0 None bg ?s2 = after_fork e ?pid c r0 None bg ?s3"
    by (simp add: runCommand_def Let_def logged_def blockChildSignal_def)
  have "grows other_call ?s3
     (state_of (and_then (and_then (after_fork e ?pid c r0 None bg ?s3)
          (\<lambda>_. closeFileDescriptor r0)) (\<lambda>_ s2.
        and_then (if \<not> bg then waitForForegroundChildren e s2 else Returned () s2)
          (\<lambda>_ s3. Returned () (unblockChildSignal s3)))))"
    by (intro grows_and_then grows_after_fork grows_close grows_tail)
  then have "grows other_call ?s3 (state_of (general_path e c [] bg s))"
    using sd ok rc by (simp add: general_path_def)
  then obtain evs where
    "log (state_of (general_path e c [] bg s)) = log ?s3 @ evs" "list_all other_call evs"
    by (auto simp: grows_def)
  moreover have "log ?s3 =
     log s @ [Dup STDIN_FILENO r0, BlockChildSignal, Fflush, Fork ?pid ?born]"
    by (simp add: logged_def blockChildSignal_def)
  moreover have "\<forall>ch. ?born = Some ch \<longrightarrow>
        child_com ch = c \<and> child_read_fd ch = r0 \<and> child_pipe_fds ch = None \<and>
        child_background ch = bg \<and>
        child_outcome ch = after_fork e 0 c r0 None bg (child_image ch)"
    by (simp add: fork_child_def)
  ultimately show ?thesis by auto
qed

lemma other_call_filters:
  "list_all other_call evs \<Longrightarrow> filter is_builtin_call evs = [] \<and> filter is_fork evs = []"
  by (induction evs) (auto simp: other_call_def)

lemma child_runs_no_builtin:
  "log s = [] \<Longrightarrow> filter is_builtin_call (log (state_of (after_fork e 0 com rd pf bg s))) = []"
  using grows_after_fork[of s e 0 com rd pf bg] other_call_filters
  by (auto simp: grows_def)

lemma child_image_log:
  "child_image ch = child_of s \<Longrightarrow> log (child_image ch) = []"
  by (simp add: child_of_def)

lemma and_then_Execed:
  "and_then m f = Execed p av s' \<longleftrightarrow>
     m = Execed p av s' \<or> (\<exists>x s1. m = Returned x s1 \<and> f x s1 = Execed p av s')"
  by (cases m) auto

lemma closeFileDescriptor_not_Execed: "closeFileDescriptor d s \<noteq> Execed p av s'"
  by (auto simp: closeFileDescriptor_def sys_close_def split: option.splits)

lemma moveFileDescriptor_not_Execed: "moveFileDescriptor e a b s \<noteq> Execed p av s'"
  by (auto simp: moveFileDescriptor_def sys_dup2_def closeFileDescriptor_not_Execed
      split: option.splits prod.splits if_splits)

lemma openFile_not_Execed: "openFile e name fl m s \<noteq> Execed p av s'"
  by (auto simp: openFile_def sys_open_def split: option.splits prod.splits if_splits)

lemma addRedirs_not_Execed: "addRedirs e r s \<noteq> Execed p av s'"
  by (auto simp: addRedirs_def Let_def and_then_Execed openFile_not_Execed
      moveFileDescriptor_not_Execed)

lemma add_all_redirs_not_Execed: "add_all_redirs e rs s \<noteq> Execed p av s'"
  by (induction rs arbitrary: s) (auto simp: and_then_Execed addRedirs_not_Execed)

lemma exec_command_Execed:
  "exec_command e c s = Execed p av s' \<Longrightarrow> args c \<noteq> [] \<and> p = hd (args c) \<and> av = args c"
  by (auto simp: exec_command_def getArgVector_def Let_def split: option.splits list.splits)

lemma child_Execed:
  assumes "after_fork e 0 (Some c) rd pf bg s = Execed p av s'"
  shows "p = hd (args c) \<and> av = args c"
  using assms
  by (auto simp: after_fork_def Let_def and_then_Execed moveFileDescriptor_not_Execed
      closeFileDescriptor_not_Execed add_all_redirs_not_Execed
      split: option.splits dest: exec_command_Execed)

lemma runPipeline_single:
  assumes "commands pl = [Some com]" and "args com = name # rest"
  shows "runPipeline e pl s =
     (if redirs com = [] \<and> pl_flags pl \<noteq> INBACKGROUND then
        (case getBuiltin e name of
           Some b \<Rightarrow>
             Returned ()
               (s\<lparr>log := log s @ CallBuiltin name (name # rest) (b (name # rest)) #
                  (if b (name # rest) = BUILTIN_ERROR e
                   then [Stderr (''Builtin '' @ name @ '' error.\<newline>'')] else [])\<rparr>)
         | None \<Rightarrow> general_path e (Some com) [] False s)
      else general_path e (Some com) [] (pl_flags pl = INBACKGROUND) s)"
  using assms
  by (auto simp: runPipeline_def getArgVector_def Let_def logged_def fprintf_stderr_def
      split: option.splits)

text \<open>
  C2 (builtin fast path). Take a pipeline of exactly one command whose first
  word names a builtin. If the command has no redirection and the pipeline
  is in the foreground, the shell calls the handler itself, with the whole
  argument vector, and returns: the only calls are the builtin and, when the
  handler returns \<open>BUILTIN_ERROR\<close>, the line \<open>Builtin <name> error.\<close> on
  standard error; no descriptor is duplicated and no process is created, and
  nothing else of the state of the shell changes. If the command has a
  redirection or the pipeline is in the background, the shell takes the
  general path: no builtin is called; when \<open>dup\<close> fails the shell exits; and
  otherwise it calls \<open>fork\<close> exactly once, for a child that runs this command
  and that, if it comes to execute a program, executes the one named by the
  first word with the whole argument vector, without any call of a builtin.
\<close>

theorem C2_builtin_fast_path:
  assumes "commands pl = [Some com]" and "args com = name # rest"
    and "getBuiltin e name = Some b"
  shows "(redirs com = [] \<and> pl_flags pl \<noteq> INBACKGROUND \<longrightarrow>
            runPipeline e pl s =
              Returned ()
                (s\<lparr>log := log s @ CallBuiltin name (name # rest) (b (name # rest)) #
                   (if b (name # rest) = BUILTIN_ERROR e
                    then [Stderr (''Builtin '' @ name @ '' error.\<newline>'')] else [])\<rparr>)) \<and>
         (redirs com \<noteq> [] \<or> pl_flags pl = INBACKGROUND \<longrightarrow>
            runPipeline e pl s = general_path e (Some com) [] (pl_flags pl = INBACKGROUND) s \<and>
            filter is_builtin_call (new_events s (runPipeline e pl s)) = [] \<and>
            (fds s STDIN_FILENO = None \<or> free_fd e (fds s) = None \<longrightarrow>
               runPipeline e pl s =
                 Exited EXIT_FAILURE
                   (s\<lparr>log := log s @ [Dup STDIN_FILENO (- 1), Perror ''dup() failed'']\<rparr>)) \<and>
            (fds s STDIN_FILENO \<noteq> None \<and> free_fd e (fds s) \<noteq> None \<longrightarrow>
               (\<exists>born. filter is_fork (new_events s (runPipeline e pl s)) =
                           [Fork (fork_pid e (forks_made s)) born] \<and>
                  (\<forall>ch. born = Some ch \<longrightarrow>
                     child_com ch = Some com \<and>
                     child_background ch = (pl_flags pl = INBACKGROUND) \<and>
                     child_outcome ch =
                       after_fork e 0 (Some com) (child_read_fd ch) None
                         (pl_flags pl = INBACKGROUND) (child_image ch) \<and>
                     filter is_builtin_call (new_events (child_image ch) (child_outcome ch)) = [] \<and>
                     (\<forall>p av s'. child_outcome ch = Execed p av s' \<longrightarrow>
                        p = name \<and> av = name # rest)))))"
proof -
  let ?bg = "pl_flags pl = INBACKGROUND"
  note rp = runPipeline_single[OF assms(1,2), of e s]
  have fast: "runPipeline e pl s =
      Returned ()
        (s\<lparr>log := log s @ CallBuiltin name (name # rest) (b (name # rest)) #
           (if b (name # rest) = BUILTIN_ERROR e
            then [Stderr (''Builtin '' @ name @ '' error.\<newline>'')] else [])\<rparr>)"
    if "redirs com = [] \<and> pl_flags pl \<noteq> INBACKGROUND"
    using rp that assms(3) by simp
  have gen: "runPipeline e pl s = general_path e (Some com) [] ?bg s"
    if "redirs com \<noteq> [] \<or> ?bg"
    using rp that by auto
  have fails: "runPipeline e pl s =
        Exited EXIT_FAILURE
          (s\<lparr>log := log s @ [Dup STDIN_FILENO (- 1), Perror ''dup() failed'']\<rparr>)"
    if "redirs com \<noteq> [] \<or> ?bg" "fds s STDIN_FILENO = None \<or> free_fd e (fds s) = None"
    using gen[OF that(1)] general_path_single_dup_fails[OF that(2)] by simp
  have forks: "\<exists>born. filter is_fork (new_events s (runPipeline e pl s)) =
                  [Fork (fork_pid e (forks_made s)) born] \<and>
          filter is_builtin_call (new_events s (runPipeline e pl s)) = [] \<and>
          (\<forall>ch. born = Some ch \<longrightarrow>
             child_com ch = Some com \<and> child_background ch = ?bg \<and>
             child_outcome ch =
               after_fork e 0 (Some com) (child_read_fd ch) None ?bg (child_image ch) \<and>
             filter is_builtin_call (new_events (child_image ch) (child_outcome ch)) = [] \<and>
             (\<forall>p av s'. child_outcome ch = Execed p av s' \<longrightarrow> p = name \<and> av = name # rest))"
    if g: "redirs com \<noteq> [] \<or> ?bg" and d: "fds s STDIN_FILENO \<noteq> None \<and> free_fd e (fds s) \<noteq> None"
  proof -
    from d obtain d0 r0 where "fds s STDIN_FILENO = Some d0" "free_fd e (fds s) = Some r0"
      by auto
    from general_path_single_log[OF this, of "Some com" ?bg] obtain born evs where
      lg: "log (state_of (general_path e (Some com) [] ?bg s)) =
         log s @ [Dup STDIN_FILENO r0, BlockChildSignal, Fflush,
           Fork (fork_pid e (forks_made s)) born] @ evs"
      and ot: "list_all other_call evs"
      and ch: "\<forall>ch. born = Some ch \<longrightarrow>
        child_com ch = Some com \<and> child_read_fd ch = r0 \<and> child_pipe_fds ch = None \<and>
        child_background ch = ?bg \<and>
        child_outcome ch = after_fork e 0 (Some com) r0 None ?bg (child_image ch)"
      by blast
    have ne: "new_events s (runPipeline e pl s) =
        [Dup STDIN_FILENO r0, BlockChildSignal, Fflush, Fork (fork_pid e (forks_made s)) born] @ evs"
      using lg gen[OF g] by (simp add: new_events_def)
    have 1: "filter is_fork (new_events s (runPipeline e pl s)) =
        [Fork (fork_pid e (forks_made s)) born]"
      and 2: "filter is_builtin_call (new_events s (runPipeline e pl s)) = []"
      using ne other_call_filters[OF ot] by simp_all
    have 3: "filter is_builtin_call (new_events (child_image c') (child_outcome c')) = [] \<and>
        (\<forall>p av s'. child_outcome c' = Execed p av s' \<longrightarrow> p = name \<and> av = name # rest)"
      if "born = Some c'" for c'
    proof -
      from ch that have co:
        "child_outcome c' = after_fork e 0 (Some com) r0 None ?bg (child_image c')"
        by blast
      from grows_after_fork[of "child_image c'" e 0 "Some com" r0 None ?bg] co
      obtain evs' where "log (state_of (child_outcome c')) = log (child_image c') @ evs'"
        "list_all other_call evs'"
        by (auto simp: grows_def)
      then have "filter is_builtin_call (new_events (child_image c') (child_outcome c')) = []"
        using other_call_filters[of evs'] by (simp add: new_events_def)
      moreover have "p = name \<and> av = name # rest" if "child_outcome c' = Execed p av s'" for p av s'
        using child_Execed[of e com r0 None ?bg "child_image c'" p av s'] that co assms(2) by simp
      ultimately show ?thesis by blast
    qed
    show ?thesis using 1 2 3 ch by blast
  qed
  have nb: "filter is_builtin_call (new_events s (runPipeline e pl s)) = []"
    if g: "redirs com \<noteq> [] \<or> ?bg"
  proof (cases "fds s STDIN_FILENO \<noteq> None \<and> free_fd e (fds s) \<noteq> None")
    case True
    from forks[OF g True] show ?thesis by blast
  next
    case False
    then have "fds s STDIN_FILENO = None \<or> free_fd e (fds s) = None" by blast
    from fails[OF g this] show ?thesis by (simp add: new_events_def state_of_def)
  qed
  show ?thesis using fast gen fails forks nb by blast
qed

theorem C2_witness_lcd:
  "runPipeline ex_env \<lparr>commands = [Some ex_lcd], pl_flags = INFOREGROUND\<rparr> ex_shell =
     Returned ()
       (ex_shell\<lparr>log := [CallBuiltin ''lcd'' [''lcd'', ''/nowhere''] 2,
                          Stderr ''Builtin lcd error.\<newline>'']\<rparr>) \<and>
   (\<exists>born. filter is_fork (new_events ex_shell
       (runPipeline ex_env \<lparr>commands = [Some ex_lcd], pl_flags = INBACKGROUND\<rparr> ex_shell)) =
         [Fork 100 born]) \<and>
   filter is_builtin_call (new_events ex_shell
      (runPipeline ex_env \<lparr>commands = [Some ex_lcd], pl_flags = INBACKGROUND\<rparr> ex_shell)) = []"
proof -
  have b: "getBuiltin ex_env ''lcd'' = Some (\<lambda>argv. 2)"
    by (simp add: env_simps)
  have a: "args ex_lcd = ''lcd'' # [''/nowhere'']" "redirs ex_lcd = []"
    by (simp_all add: ex_lcd_def)
  have d: "fds ex_shell STDIN_FILENO \<noteq> None \<and> free_fd ex_env (fds ex_shell) \<noteq> None"
    by (simp add: ex_shell_def STDIN_FILENO_def free_fd_def env_simps upt8)
  have l: "log ex_shell = []" "forks_made ex_shell = 0"
    by (simp_all add: ex_shell_def)
  from C2_builtin_fast_path[of "\<lparr>commands = [Some ex_lcd], pl_flags = INFOREGROUND\<rparr>" ex_lcd
      "''lcd''" "[''/nowhere'']" ex_env "\<lambda>argv. 2" ex_shell] a b
  have 1: "runPipeline ex_env \<lparr>commands = [Some ex_lcd], pl_flags = INFOREGROUND\<rparr> ex_shell =
     Returned ()
       (ex_shell\<lparr>log := [CallBuiltin ''lcd'' [''lcd'', ''/nowhere''] 2,
                          Stderr ''Builtin lcd error.\<newline>'']\<rparr>)"
    by (simp add: env_simps l)
  from C2_builtin_fast_path[of "\<lparr>commands = [Some ex_lcd], pl_flags = INBACKGROUND\<rparr>" ex_lcd
      "''lcd''" "[''/nowhere'']" ex_env "\<lambda>argv. 2" ex_shell] a b d
  have 2: "(\<exists>born. filter is_fork (new_events ex_shell
       (runPipeline ex_env \<lparr>commands = [Some ex_lcd], pl_flags = INBACKGROUND\<rparr> ex_shell)) =
         [Fork 100 born]) \<and>
   filter is_builtin_call (new_events ex_shell
      (runPipeline ex_env \<lparr>commands = [Some ex_lcd], pl_flags = INBACKGROUND\<rparr> ex_shell)) = []"
    by (auto simp: env_simps l)
  from 1 2 show ?thesis by blast
qed

lemma and_then_assoc:
  "and_then (and_then m f) g = and_then m (\<lambda>x s. and_then (f x s) g)"
  by (cases m) auto

lemma run_seq_append:
  "run_seq e (pls1 @ pls2) s = and_then (run_seq e pls1 s) (\<lambda>_. run_seq e pls2)"
proof (induction pls1 arbitrary: s)
  case Nil
  then show ?case by simp
next
  case (Cons pl pls1)
  have "run_seq e (pls1 @ pls2) = (\<lambda>s. and_then (run_seq e pls1 s) (\<lambda>_. run_seq e pls2))"
    using Cons.IH by (intro ext) simp
  then show ?case by (simp add: and_then_assoc)
qed

lemma runPipeline_waits:
  assumes "runPipeline e pl s = Returned u s'"
  shows "(pl_flags pl = INBACKGROUND \<longrightarrow>
        foreground s' = foreground s \<and> filter is_wait (new_events s (Returned u s')) = []) \<and>
     (pl_flags pl \<noteq> INBACKGROUND \<longrightarrow>
        list_all (child_exits e) (map fst (forks (new_events s (Returned u s')))) \<and>
        (forks (new_events s (Returned u s')) = [] \<and>
         filter is_wait (new_events s (Returned u s')) = [] \<and> foreground s' = foreground s \<or>
         (\<exists>evs. new_events s (Returned u s') =
                   evs @ [WaitForForegroundChildren (foreground s @ map fst (forks evs)),
                          UnblockChildSignal] \<and>
                 forks evs \<noteq> [] \<and> filter is_wait evs = [] \<and> foreground s' = [])))"
proof -
  let ?bg = "pl_flags pl = INBACKGROUND"
  have "(\<exists>c cs. general_path e c cs ?bg s = Returned u s') \<or>
      (\<not> ?bg \<and> (\<exists>evs. s' = s\<lparr>log := log s @ evs\<rparr> \<and> forks evs = [] \<and> filter is_wait evs = []))"
  proof -
    from runPipeline_cases[of e pl s] show ?thesis
    proof (elim disjE exE conjE)
      assume "runPipeline e pl s = Faulted s"
      then show ?thesis using assms by simp
    next
      fix c cs
      assume "runPipeline e pl s = general_path e c cs ?bg s"
      then have "general_path e c cs ?bg s = Returned u s'" using assms by simp
      then show ?thesis by blast
    next
      fix com b
      let ?evs = "CallBuiltin (hd (args com)) (args com) (b (args com)) #
               (if b (args com) = BUILTIN_ERROR e
                then [Stderr (''Builtin '' @ hd (args com) @ '' error.\<newline>'')] else [])"
      assume nbg: "\<not> ?bg" and "runPipeline e pl s = Returned () (s\<lparr>log := log s @ ?evs\<rparr>)"
      then have "s' = s\<lparr>log := log s @ ?evs\<rparr>" using assms by simp
      moreover have "forks ?evs = []" "filter is_wait ?evs = []" by simp_all
      ultimately show ?thesis using nbg by blast
    qed
  qed
  then consider
    (general) c cs where "general_path e c cs ?bg s = Returned u s'"
  | (builtin) evs where "\<not> ?bg" "s' = s\<lparr>log := log s @ evs\<rparr>" "forks evs = []"
      "filter is_wait evs = []"
    by blast
  then show ?thesis
  proof cases
    case general
    from general_path_Returned[OF general] obtain r0 stages where
      len: "length stages = Suc (length cs)"
      and ex: "\<not> ?bg \<longrightarrow> list_all (child_exits e) (foreground s @ map fst stages)"
      and s': "s' = s\<lparr>sigchld_blocked := False,
            foreground := (if ?bg then foreground s else []),
            pipes_made := pipes_made s + length cs,
            forks_made := forks_made s + Suc (length cs),
            log := log s @ [Dup STDIN_FILENO r0, BlockChildSignal] @ chain_events ?bg r0 stages @
              (if ?bg then [] else [WaitForForegroundChildren (foreground s @ map fst stages)]) @
              [UnblockChildSignal]\<rparr>"
      by blast
    let ?evs = "[Dup STDIN_FILENO r0, BlockChildSignal] @ chain_events ?bg r0 stages"
    have ne: "new_events s (Returned u s') =
        ?evs @ (if ?bg then [] else [WaitForForegroundChildren (foreground s @ map fst stages)]) @
        [UnblockChildSignal]"
      by (rule new_events_Returned) (simp add: s')
    have fe: "forks ?evs = stages" "filter is_wait ?evs = []"
      by (simp_all add: chain_events_digest)
    have st: "stages \<noteq> []" using len by auto
    have 1: "foreground s' = foreground s \<and> filter is_wait (new_events s (Returned u s')) = []"
      if ?bg
      using that fe(2) unfolding ne by (simp add: s')
    have 3: "list_all (child_exits e) (map fst (forks (new_events s (Returned u s'))))" if "\<not> ?bg"
      using that ex fe(1) unfolding ne by (simp add: forks_append)
    have 4: "\<exists>evs. new_events s (Returned u s') =
                   evs @ [WaitForForegroundChildren (foreground s @ map fst (forks evs)),
                          UnblockChildSignal] \<and>
                 forks evs \<noteq> [] \<and> filter is_wait evs = [] \<and> foreground s' = []" if "\<not> ?bg"
      using that fe st unfolding ne by (intro exI[of _ ?evs]) (simp add: s')
    show ?thesis
    proof (cases ?bg)
      case True
      then show ?thesis using 1 by simp
    next
      case False
      then show ?thesis using 3[OF False] 4[OF False] by simp
    qed
  next
    case builtin
    have "new_events s (Returned u s') = evs"
      by (rule new_events_Returned) (simp add: builtin(2))
    then show ?thesis using builtin by simp
  qed
qed

lemma runPipeline_foreground:
  "foreground s = [] \<Longrightarrow> runPipeline e pl s = Returned u s' \<Longrightarrow> foreground s' = []"
  using runPipeline_waits[of e pl s u s'] by (cases "pl_flags pl = INBACKGROUND") auto

lemma run_seq_foreground:
  "foreground s = [] \<Longrightarrow> run_seq e pls s = Returned u s' \<Longrightarrow> foreground s' = []"
proof (induction pls arbitrary: s)
  case Nil
  then show ?case by simp
next
  case (Cons pl pls)
  from Cons.prems(2) obtain s1 where
    "runPipeline e pl s = Returned () s1" "run_seq e pls s1 = Returned () s'"
    by (auto simp: and_then_Returned)
  then show ?case using Cons.IH[of s1] runPipeline_foreground[OF Cons.prems(1)] by simp
qed

lemma runPipeline_Blocked:
  assumes "runPipeline e pl s = Blocked s'"
  shows "pl_flags pl \<noteq> INBACKGROUND \<and>
     (\<exists>evs. new_events s (Blocked s' :: (unit, shell) outcome) =
         evs @ [WaitForForegroundChildren (foreground s @ map fst (forks evs))] \<and>
       forks evs \<noteq> [] \<and> filter is_wait evs = [] \<and>
       \<not> list_all (child_exits e) (foreground s @ map fst (forks evs)))"
proof -
  let ?bg = "pl_flags pl = INBACKGROUND"
  from runPipeline_cases[of e pl s] assms obtain c cs where
    g: "general_path e c cs ?bg s = Blocked s'"
    by auto
  from general_path_Blocked[OF g] obtain r0 stages where
    nbg: "\<not> ?bg" and len: "length stages = Suc (length cs)"
    and ex: "\<not> list_all (child_exits e) (foreground s @ map fst stages)"
    and s': "s' = s\<lparr>sigchld_blocked := True,
            foreground := foreground s @ map fst stages,
            pipes_made := pipes_made s + length cs,
            forks_made := forks_made s + Suc (length cs),
            log := log s @ [Dup STDIN_FILENO r0, BlockChildSignal] @ chain_events ?bg r0 stages @
              [WaitForForegroundChildren (foreground s @ map fst stages)]\<rparr>"
    by blast
  let ?evs = "[Dup STDIN_FILENO r0, BlockChildSignal] @ chain_events ?bg r0 stages"
  have ne: "new_events s (Blocked s' :: (unit, shell) outcome) =
      ?evs @ [WaitForForegroundChildren (foreground s @ map fst stages)]"
    by (rule new_events_Blocked) (simp add: s')
  have fe: "forks ?evs = stages" "filter is_wait ?evs = []"
    by (simp_all add: chain_events_digest)
  have st: "stages \<noteq> []" using len by auto
  have "\<exists>evs. new_events s (Blocked s' :: (unit, shell) outcome) =
         evs @ [WaitForForegroundChildren (foreground s @ map fst (forks evs))] \<and>
       forks evs \<noteq> [] \<and> filter is_wait evs = [] \<and>
       \<not> list_all (child_exits e) (foreground s @ map fst (forks evs))"
    using fe st ex unfolding ne by (intro exI[of _ ?evs]) simp
  then show ?thesis using nbg by blast
qed

text \<open>
  C9 (sequencing of pipelines). On a validated line \<^verbatim>\<open>handleLine\<close> runs the
  non-empty pipelines of the line one after the other in the order of the
  line: a pipeline runs from the state in which all the pipelines before it
  have returned, and it does not run at all unless they have; in particular
  nothing runs after a pipeline on which the shell is still blocked. A
  foreground pipeline that launches processes returns only through a wait,
  made after all its launches, for the registered foreground children and
  the processes it has launched, and only if all of these terminate; the set
  of foreground children is then empty. If one of them does not terminate,
  the shell stays blocked in that wait. A background pipeline makes no wait,
  leaves the set of foreground children as it was and never blocks the
  shell. The set of foreground children is empty from pipeline to pipeline
  when it was empty at the start, so that every wait is for the processes of
  the one pipeline at hand.
\<close>

theorem C9_pipelines_in_order:
  "(ring h ns \<and> parseline e line = (h, hd ns) \<and>
    rd_errno (getLine e (lines_read s)) \<noteq> Some EIO \<and>
    rd_line (getLine e (lines_read s)) = Some line \<and>
    removeEmptyPipelines h (hd ns) = Some (count, h', p') \<and> count \<noteq> - 1 \<longrightarrow>
      handleLine e s =
        run_seq e (map the (filter (\<lambda>p. \<not> isEmptyPipeline p) (pipelines_at h ns)))
          (logged GetLine (s\<lparr>lines_read := Suc (lines_read s)\<rparr>))) \<and>
   run_seq e (pls1 @ pl # pls2) s =
     and_then (run_seq e pls1 s) (\<lambda>_ s1. and_then (runPipeline e pl s1) (\<lambda>_. run_seq e pls2)) \<and>
   (\<forall>s1. run_seq e pls1 s = Blocked s1 \<longrightarrow> run_seq e (pls1 @ pl # pls2) s = Blocked s1) \<and>
   (\<forall>s1 s2. run_seq e pls1 s = Returned () s1 \<and> runPipeline e pl s1 = Blocked s2 \<longrightarrow>
       run_seq e (pls1 @ pl # pls2) s = Blocked s2) \<and>
   (foreground s = [] \<and> run_seq e pls1 s = Returned u s' \<longrightarrow> foreground s' = []) \<and>
   (runPipeline e pl s = Returned u s' \<longrightarrow>
      (pl_flags pl = INBACKGROUND \<longrightarrow>
         foreground s' = foreground s \<and> filter is_wait (new_events s (Returned u s')) = []) \<and>
      (pl_flags pl \<noteq> INBACKGROUND \<longrightarrow>
         list_all (child_exits e) (map fst (forks (new_events s (Returned u s')))) \<and>
         (forks (new_events s (Returned u s')) = [] \<and>
          filter is_wait (new_events s (Returned u s')) = [] \<and> foreground s' = foreground s \<or>
          (\<exists>evs. new_events s (Returned u s') =
                    evs @ [WaitForForegroundChildren (foreground s @ map fst (forks evs)),
                           UnblockChildSignal] \<and>
                  forks evs \<noteq> [] \<and> filter is_wait evs = [] \<and> foreground s' = [])))) \<and>
   (runPipeline e pl s = Blocked s' \<longrightarrow>
      pl_flags pl \<noteq> INBACKGROUND \<and>
      (\<exists>evs. new_events s (Blocked s' :: (unit, shell) outcome) =
          evs @ [WaitForForegroundChildren (foreground s @ map fst (forks evs))] \<and>
        forks evs \<noteq> [] \<and> filter is_wait evs = [] \<and>
        \<not> list_all (child_exits e) (foreground s @ map fst (forks evs))))"
proof -
  have c0: "ring h ns \<and> parseline e line = (h, hd ns) \<and>
    rd_errno (getLine e (lines_read s)) \<noteq> Some EIO \<and>
    rd_line (getLine e (lines_read s)) = Some line \<and>
    removeEmptyPipelines h (hd ns) = Some (count, h', p') \<and> count \<noteq> - 1 \<longrightarrow>
      handleLine e s =
        run_seq e (map the (filter (\<lambda>p. \<not> isEmptyPipeline p) (pipelines_at h ns)))
          (logged GetLine (s\<lparr>lines_read := Suc (lines_read s)\<rparr>))"
  proof
    assume a: "ring h ns \<and> parseline e line = (h, hd ns) \<and>
    rd_errno (getLine e (lines_read s)) \<noteq> Some EIO \<and>
    rd_line (getLine e (lines_read s)) = Some line \<and>
    removeEmptyPipelines h (hd ns) = Some (count, h', p') \<and> count \<noteq> - 1"
    then have "ring h ns" "parseline e line = (h, hd ns)"
      "rd_errno (getLine e (lines_read s)) \<noteq> Some EIO"
      "rd_line (getLine e (lines_read s)) = Some line"
      "removeEmptyPipelines h (hd ns) = Some (count, h', p')" "count \<noteq> - 1"
      by simp_all
    from handleLine_validated[OF this] show "handleLine e s =
        run_seq e (map the (filter (\<lambda>p. \<not> isEmptyPipeline p) (pipelines_at h ns)))
          (logged GetLine (s\<lparr>lines_read := Suc (lines_read s)\<rparr>))"
      by simp
  qed
  have c1: "run_seq e (pls1 @ pl # pls2) s =
     and_then (run_seq e pls1 s) (\<lambda>_ s1. and_then (runPipeline e pl s1) (\<lambda>_. run_seq e pls2))"
  proof -
    have "run_seq e (pl # pls2) = (\<lambda>s1. and_then (runPipeline e pl s1) (\<lambda>_. run_seq e pls2))"
      by (intro ext) simp
    then show ?thesis by (simp add: run_seq_append[of e pls1 "pl # pls2" s])
  qed
  have c1b: "(\<forall>s1. run_seq e pls1 s = Blocked s1 \<longrightarrow> run_seq e (pls1 @ pl # pls2) s = Blocked s1)"
    by (simp add: c1)
  have c1c: "(\<forall>s1 s2. run_seq e pls1 s = Returned () s1 \<and> runPipeline e pl s1 = Blocked s2 \<longrightarrow>
       run_seq e (pls1 @ pl # pls2) s = Blocked s2)"
    by (simp add: c1)
  have c2: "foreground s = [] \<and> run_seq e pls1 s = Returned u s' \<longrightarrow> foreground s' = []"
    using run_seq_foreground[of s e pls1 u s'] by simp
  have c3: "runPipeline e pl s = Returned u s' \<longrightarrow>
      (pl_flags pl = INBACKGROUND \<longrightarrow>
         foreground s' = foreground s \<and> filter is_wait (new_events s (Returned u s')) = []) \<and>
      (pl_flags pl \<noteq> INBACKGROUND \<longrightarrow>
         list_all (child_exits e) (map fst (forks (new_events s (Returned u s')))) \<and>
         (forks (new_events s (Returned u s')) = [] \<and>
          filter is_wait (new_events s (Returned u s')) = [] \<and> foreground s' = foreground s \<or>
          (\<exists>evs. new_events s (Returned u s') =
                    evs @ [WaitForForegroundChildren (foreground s @ map fst (forks evs)),
                           UnblockChildSignal] \<and>
                  forks evs \<noteq> [] \<and> filter is_wait evs = [] \<and> foreground s' = [])))"
  proof
    assume "runPipeline e pl s = Returned u s'"
    from runPipeline_waits[OF this] show "(pl_flags pl = INBACKGROUND \<longrightarrow>
         foreground s' = foreground s \<and> filter is_wait (new_events s (Returned u s')) = []) \<and>
      (pl_flags pl \<noteq> INBACKGROUND \<longrightarrow>
         list_all (child_exits e) (map fst (forks (new_events s (Returned u s')))) \<and>
         (forks (new_events s (Returned u s')) = [] \<and>
          filter is_wait (new_events s (Returned u s')) = [] \<and> foreground s' = foreground s \<or>
          (\<exists>evs. new_events s (Returned u s') =
                    evs @ [WaitForForegroundChildren (foreground s @ map fst (forks evs)),
                           UnblockChildSignal] \<and>
                  forks evs \<noteq> [] \<and> filter is_wait evs = [] \<and> foreground s' = [])))" .
  qed
  have c4: "runPipeline e pl s = Blocked s' \<longrightarrow>
      pl_flags pl \<noteq> INBACKGROUND \<and>
      (\<exists>evs. new_events s (Blocked s' :: (unit, shell) outcome) =
          evs @ [WaitForForegroundChildren (foreground s @ map fst (forks evs))] \<and>
        forks evs \<noteq> [] \<and> filter is_wait evs = [] \<and>
        \<not> list_all (child_exits e) (foreground s @ map fst (forks evs)))"
  proof
    assume "runPipeline e pl s = Blocked s'"
    from runPipeline_Blocked[OF this] show "pl_flags pl \<noteq> INBACKGROUND \<and>
      (\<exists>evs. new_events s (Blocked s' :: (unit, shell) outcome) =
          evs @ [WaitForForegroundChildren (foreground s @ map fst (forks evs))] \<and>
        forks evs \<noteq> [] \<and> filter is_wait evs = [] \<and>
        \<not> list_all (child_exits e) (foreground s @ map fst (forks evs)))" .
  qed
  show ?thesis
    by (rule conjI[OF c0 conjI[OF c1 conjI[OF c1b conjI[OF c1c conjI[OF c2 conjI[OF c3 c4]]]]]])
qed

lemma ex_background_returns:
  "\<exists>s'. runPipeline ex_env \<lparr>commands = [cmd [''ls'']], pl_flags = INBACKGROUND\<rparr> ex_shell =
     Returned () s'"
  by (simp add: runPipeline_def cmd_def parent_eval ex_shell_def)

lemma ex_foreground_returns:
  "\<exists>s'. runPipeline ex_env \<lparr>commands = [cmd [''ls''], cmd [''wc'']], pl_flags = INFOREGROUND\<rparr>
     ex_shell = Returned () s'"
  by (simp add: runPipeline_def cmd_def parent_eval ex_shell_def)

lemma ex_foreground_blocks:
  "\<exists>s'. runPipeline (ex_env\<lparr>child_exits := \<lambda>pid. False\<rparr>)
     \<lparr>commands = [cmd [''ls''], cmd [''wc'']], pl_flags = INFOREGROUND\<rparr> ex_shell = Blocked s'"
  by (simp add: runPipeline_def cmd_def parent_eval ex_shell_def)

lemma ex_two_returns:
  "\<exists>s'. run_seq ex_env
      [\<lparr>commands = [cmd [''ls'']], pl_flags = INBACKGROUND\<rparr>,
       \<lparr>commands = [cmd [''ls''], cmd [''wc'']], pl_flags = INFOREGROUND\<rparr>] ex_shell =
     Returned () s'"
  by (simp add: runPipeline_def cmd_def parent_eval ex_shell_def)

theorem C9_witness_line:
  "handleLine ex_env ex_shell =
     run_seq ex_env
       [\<lparr>commands = [cmd [''true'']], pl_flags = INFOREGROUND\<rparr>,
        \<lparr>commands = [cmd [''false'']], pl_flags = INFOREGROUND\<rparr>]
       (logged GetLine (ex_shell\<lparr>lines_read := 1\<rparr>)) \<and>
   (\<exists>s'. run_seq ex_env
           [\<lparr>commands = [cmd [''ls'']], pl_flags = INBACKGROUND\<rparr>,
            \<lparr>commands = [cmd [''ls''], cmd [''wc'']], pl_flags = INFOREGROUND\<rparr>] ex_shell =
           Returned () s' \<and>
         foreground s' = []) \<and>
   (\<exists>s'. runPipeline ex_env \<lparr>commands = [cmd [''ls''], cmd [''wc'']], pl_flags = INFOREGROUND\<rparr>
           ex_shell = Returned () s' \<and>
         list_all (child_exits ex_env) (map fst (forks (new_events ex_shell (Returned () s')))) \<and>
         foreground s' = []) \<and>
   (\<exists>s'. runPipeline ex_env \<lparr>commands = [cmd [''ls'']], pl_flags = INBACKGROUND\<rparr> ex_shell =
           Returned () s' \<and>
         filter is_wait (new_events ex_shell (Returned () s')) = []) \<and>
   (\<exists>s'. runPipeline (ex_env\<lparr>child_exits := \<lambda>pid. False\<rparr>)
           \<lparr>commands = [cmd [''ls''], cmd [''wc'']], pl_flags = INFOREGROUND\<rparr> ex_shell =
           Blocked s' \<and>
         is_wait (last (new_events ex_shell (Blocked s' :: (unit, shell) outcome))) \<and>
         run_seq (ex_env\<lparr>child_exits := \<lambda>pid. False\<rparr>)
           [\<lparr>commands = [cmd [''ls''], cmd [''wc'']], pl_flags = INFOREGROUND\<rparr>,
            \<lparr>commands = [cmd [''ls'']], pl_flags = INBACKGROUND\<rparr>] ex_shell = Blocked s')"
proof -
  let ?fg = "\<lparr>commands = [cmd [''ls''], cmd [''wc'']], pl_flags = INFOREGROUND\<rparr>"
  let ?bg = "\<lparr>commands = [cmd [''ls'']], pl_flags = INBACKGROUND\<rparr>"
  let ?never = "ex_env\<lparr>child_exits := \<lambda>pid. False\<rparr>"
  let ?h' = "line_true_false(1 \<mapsto> ex_node [cmd [''true'']] 3)"
  have f: "foreground ex_shell = []" by (simp add: ex_shell_def)
  from ex_two_returns obtain s1 where
    r1: "run_seq ex_env [?bg, ?fg] ex_shell = Returned () s1" by blast
  from ex_foreground_returns obtain s2 where
    r2: "runPipeline ex_env ?fg ex_shell = Returned () s2" by blast
  from ex_background_returns obtain s3 where
    r3: "runPipeline ex_env ?bg ex_shell = Returned () s3" by blast
  from ex_foreground_blocks obtain s4 where
    r4: "runPipeline ?never ?fg ex_shell = Blocked s4" by blast
  have rg: "ring line_true_false [1, 2, 3]"
    by (simp add: ring_def line_true_false_def deref_def NULL_def ex_node_def)
  have pl: "parseline ex_env ''true ; ; false'' = (line_true_false, hd [1, 2, 3])"
    by (simp add: env_simps ex_parseline_def)
  have e1: "rd_errno (getLine ex_env (lines_read ex_shell)) \<noteq> Some EIO"
    by (simp add: env_simps ex_getLine_def ex_shell_def)
  have e2: "rd_line (getLine ex_env (lines_read ex_shell)) = Some ''true ; ; false''"
    by (simp add: env_simps ex_getLine_def ex_shell_def)
  have ev: "removeEmptyPipelines line_true_false (hd [1, 2, 3]) = Some (2, ?h', 1)"
    using ex_true_false_validated by simp
  have ps: "filter (\<lambda>p. \<not> isEmptyPipeline p) (pipelines_at line_true_false [1, 2, 3]) =
      [Some \<lparr>commands = [cmd [''true'']], pl_flags = INFOREGROUND\<rparr>,
       Some \<lparr>commands = [cmd [''false'']], pl_flags = INFOREGROUND\<rparr>]"
    by (simp add: pipelines_at_def line_true_false_def ex_node_def cmd_def)
  have ls: "ex_shell\<lparr>lines_read := Suc (lines_read ex_shell)\<rparr> = ex_shell\<lparr>lines_read := 1\<rparr>"
    by (simp add: ex_shell_def)
  have 0: "handleLine ex_env ex_shell =
     run_seq ex_env
       [\<lparr>commands = [cmd [''true'']], pl_flags = INFOREGROUND\<rparr>,
        \<lparr>commands = [cmd [''false'']], pl_flags = INFOREGROUND\<rparr>]
       (logged GetLine (ex_shell\<lparr>lines_read := 1\<rparr>))"
  proof -
    from C9_pipelines_in_order[of line_true_false "[1, 2, 3]" ex_env "''true ; ; false''" ex_shell 2
        ?h' 1 "[]" ?fg "[]" "()" s2] rg pl e1 e2 ev
    have "handleLine ex_env ex_shell =
        run_seq ex_env
          (map the (filter (\<lambda>p. \<not> isEmptyPipeline p) (pipelines_at line_true_false [1, 2, 3])))
          (logged GetLine (ex_shell\<lparr>lines_read := Suc (lines_read ex_shell)\<rparr>))"
      by simp
    then show ?thesis unfolding ps ls by simp
  qed
  have 1: "foreground s1 = []"
    using C9_pipelines_in_order[of line_true_false "[1, 2, 3]" ex_env "''true ; ; false''" ex_shell 2
        ?h' 1 "[?bg, ?fg]" ?fg "[]" "()" s1] f r1
    by blast
  have 2: "list_all (child_exits ex_env) (map fst (forks (new_events ex_shell (Returned () s2)))) \<and>
      foreground s2 = []"
  proof -
    from C9_pipelines_in_order[of line_true_false "[1, 2, 3]" ex_env "''true ; ; false''" ex_shell 2
        ?h' 1 "[]" ?fg "[]" "()" s2] r2
    have "list_all (child_exits ex_env) (map fst (forks (new_events ex_shell (Returned () s2)))) \<and>
         (forks (new_events ex_shell (Returned () s2)) = [] \<and>
          filter is_wait (new_events ex_shell (Returned () s2)) = [] \<and>
          foreground s2 = foreground ex_shell \<or>
          (\<exists>evs. new_events ex_shell (Returned () s2) =
                    evs @ [WaitForForegroundChildren (foreground ex_shell @ map fst (forks evs)),
                           UnblockChildSignal] \<and>
                  forks evs \<noteq> [] \<and> filter is_wait evs = [] \<and> foreground s2 = []))"
      by simp
    then show ?thesis using f by auto
  qed
  have 3: "filter is_wait (new_events ex_shell (Returned () s3)) = []"
    using C9_pipelines_in_order[of line_true_false "[1, 2, 3]" ex_env "''true ; ; false''" ex_shell 2
        ?h' 1 "[]" ?bg "[]" "()" s3] r3
    by simp
  have 4: "is_wait (last (new_events ex_shell (Blocked s4 :: (unit, shell) outcome)))"
  proof -
    from C9_pipelines_in_order[of line_true_false "[1, 2, 3]" ?never "''true ; ; false''" ex_shell 2
        ?h' 1 "[]" ?fg "[]" "()" s4] r4
    obtain evs where "new_events ex_shell (Blocked s4 :: (unit, shell) outcome) =
          evs @ [WaitForForegroundChildren (foreground ex_shell @ map fst (forks evs))]"
      by blast
    then show ?thesis by simp
  qed
  have 5: "run_seq ?never [?fg, ?bg] ex_shell = Blocked s4"
  proof -
    have "run_seq ?never [] ex_shell = Returned () ex_shell" by simp
    with C9_pipelines_in_order[of line_true_false "[1, 2, 3]" ?never "''true ; ; false''" ex_shell 2
        ?h' 1 "[]" ?fg "[?bg]" "()" s4] r4
    have "run_seq ?never ([] @ ?fg # [?bg]) ex_shell = Blocked s4" by blast
    then show ?thesis by simp
  qed
  from 0 1 2 3 4 5 r1 r2 r3 r4 show ?thesis by blast
qed

end
